theory Spec2Isabelle
  imports Complex_Main "HOL-Library.Log_Nat"
begin

section \<open>JavaScript numbers\<close>

text \<open>
  The planner \<open>getDistribution\<close> of the add-liquidity component computes its raw weights
  in JavaScript numbers (IEEE 754 binary64) and only then converts to \<open>BigInt\<close>.  A finite
  number is modelled by the real it denotes; every arithmetic operation computes the exact
  result and rounds it to the nearest number with a 53-bit significand, ties to even
  (\<open>fl\<close>).  The exponent range is not bounded: the values that the planner computes
  stay far from overflow and from the subnormal range (with ten bins, a non-zero
  intermediate value lies between \<open>2 ^ - 10\<close> and \<open>2 ^ 31\<close> in magnitude).

  \<open>None\<close> stands for a value that is not a finite number (\<open>NaN\<close>, \<open>Infinity\<close>, and
  \<open>undefined\<close>, which arithmetic converts to \<open>NaN\<close>).  The planner never applies to
  such a value an operation that would tell them apart: it is only added, divided,
  multiplied, floored and handed to \<open>BigInt\<close>, which throws a \<open>RangeError\<close>.
\<close>

type_synonym jsnum = "real option"

text \<open>For \<open>0 < x\<close>, \<open>expo x\<close> is the exponent \<open>e\<close> with \<open>2 ^ e \<le> x < 2 ^ (e + 1)\<close>.\<close>

definition expo :: "real \<Rightarrow> int" where
  "expo x = (if 1 \<le> x then bitlen \<lfloor>x\<rfloor> - 1
             else (let k = bitlen \<lfloor>1 / x\<rfloor> - 1
                   in if x * 2 ^ nat k = 1 then - k else - k - 1))"

definition round_even :: "real \<Rightarrow> int" where
  "round_even q = (let f = \<lfloor>q\<rfloor>; d = q - of_int f in
      if d < 1 / 2 then f else if 1 / 2 < d then f + 1 else if even f then f else f + 1)"

definition fl :: "real \<Rightarrow> real" where
  "fl x = (if x = 0 then 0 else
     (let u = 2 powi (expo \<bar>x\<bar> - 52) in of_int (round_even (x / u)) * u))"

fun fadd :: "jsnum \<Rightarrow> jsnum \<Rightarrow> jsnum" where
  "fadd (Some x) (Some y) = Some (fl (x + y))"
| "fadd _ _ = None"

fun fsub :: "jsnum \<Rightarrow> jsnum \<Rightarrow> jsnum" where
  "fsub (Some x) (Some y) = Some (fl (x - y))"
| "fsub _ _ = None"

fun fmul :: "jsnum \<Rightarrow> jsnum \<Rightarrow> jsnum" where
  "fmul (Some x) (Some y) = Some (fl (x * y))"
| "fmul _ _ = None"

text \<open>Division by zero gives \<open>NaN\<close> or an infinity.\<close>

fun fdiv :: "jsnum \<Rightarrow> jsnum \<Rightarrow> jsnum" where
  "fdiv (Some x) (Some y) = (if y = 0 then None else Some (fl (x / y)))"
| "fdiv _ _ = None"

definition fneg :: "jsnum \<Rightarrow> jsnum" where
  "fneg a = map_option uminus a"

text \<open>An integer below \<open>2 ^ 53\<close> in magnitude is a number as it stands.\<close>

definition num :: "int \<Rightarrow> jsnum" where
  "num i = Some (of_int i)"

definition Math_floor :: "jsnum \<Rightarrow> jsnum" where
  "Math_floor a = map_option (\<lambda>x. of_int \<lfloor>x\<rfloor>) a"

datatype error = RangeError | TypeError

text \<open>\<open>BigInt(v)\<close> throws a \<open>RangeError\<close> unless \<open>v\<close> is an integral finite number.\<close>

definition BigInt :: "jsnum \<Rightarrow> error + int" where
  "BigInt a = (case a of None \<Rightarrow> Inl RangeError
     | Some x \<Rightarrow> if of_int \<lfloor>x\<rfloor> = x then Inr \<lfloor>x\<rfloor> else Inl RangeError)"

text \<open>\<open>xs.map(f)\<close> where the callback may throw: the first exception ends the map.\<close>

fun map_result :: "('a \<Rightarrow> error + 'b) \<Rightarrow> 'a list \<Rightarrow> error + 'b list" where
  "map_result f [] = Inr []"
| "map_result f (x # xs) =
     (case f x of Inl e \<Rightarrow> Inl e
      | Inr y \<Rightarrow> (case map_result f xs of Inl e \<Rightarrow> Inl e | Inr ys \<Rightarrow> Inr (y # ys)))"

text \<open>\<open>xs.findIndex(p)\<close>, with \<open>None\<close> for the result \<open>-1\<close>.\<close>

fun findIndex :: "('a \<Rightarrow> bool) \<Rightarrow> 'a list \<Rightarrow> nat option" where
  "findIndex p [] = None"
| "findIndex p (x # xs) =
     (if p x then Some 0 else map_option Suc (findIndex p xs))"

section \<open>The planner\<close>

text \<open>
  Modelled from the spec: the declaration of \<open>StrategyType\<close>, which the component imports
  from the module \<open>./strategy-selector\<close> and which is not among the sources.  The spec's
  \<open>Strategy\<close> is a closed enumeration of three values, \<open>Uniform\<close>, \<open>BellCurve\<close> and
  \<open>UShape\<close>; they are the three case labels of the planner's \<open>switch\<close>: \<open>"spot"\<close>,
  \<open>"curve"\<close> and \<open>"bidask"\<close>.
\<close>

datatype StrategyType = Spot | Curve | Bidask

record BinPlan =
  deltaIds :: "int list"
  distributionX :: "int list"
  distributionY :: "int list"
  numBins :: int

definition PRECISION_BI :: int where
  "PRECISION_BI = 1000000000000000000"

text \<open>
  The raw weights.  \<open>Math.exp\<close> is implementation-approximated in ECMAScript, so it is a
  parameter \<open>mexp\<close> of the model.  \<open>Array(numBins)\<close> throws a \<open>RangeError\<close> for a length
  that is negative or beyond \<open>2 ^ 32 - 1\<close>; \<open>Array.from({ length: numBins }, ...)\<close>
  takes a negative length for zero and throws the same error beyond \<open>2 ^ 32 - 1\<close>.  The
  literal \<open>0.1\<close> denotes the number nearest to one tenth.
\<close>

definition curve_exponent :: "int \<Rightarrow> nat \<Rightarrow> jsnum" where
  "curve_exponent n i =
     (let center = fdiv (num n) (num 2);
          sigma = fdiv (num n) (num 4);
          x = fsub (num (int i)) center
      in fdiv (fneg (fmul x x)) (fmul (fmul (num 2) sigma) sigma))"

definition bidask_weight :: "int \<Rightarrow> nat \<Rightarrow> jsnum" where
  "bidask_weight n i =
     (let normalized = fdiv (fsub (num (int i)) (fdiv (fsub (num n) (num 1)) (num 2)))
                            (fdiv (fsub (num n) (num 1)) (num 2))
      in fadd (fmul normalized normalized) (Some (fl (1 / 10))))"

definition curve_weights :: "(real \<Rightarrow> real) \<Rightarrow> int \<Rightarrow> jsnum list" where
  "curve_weights mexp n = map (\<lambda>i. map_option mexp (curve_exponent n i)) [0..<nat n]"

definition bidask_weights :: "int \<Rightarrow> jsnum list" where
  "bidask_weights n = map (bidask_weight n) [0..<nat n]"

fun weights :: "(real \<Rightarrow> real) \<Rightarrow> int \<Rightarrow> StrategyType \<Rightarrow> error + jsnum list" where
  "weights mexp n Spot =
     (if n < 0 \<or> 2 ^ 32 \<le> n then Inl RangeError else Inr (replicate (nat n) (num 1)))"
| "weights mexp n Curve =
     (if 2 ^ 32 \<le> n then Inl RangeError else Inr (curve_weights mexp n))"
| "weights mexp n Bidask =
     (if 2 ^ 32 \<le> n then Inl RangeError else Inr (bidask_weights n))"

text \<open>
  \<open>Array.from({ length: numBins }, (_, i) => i - Math.floor(numBins / 2))\<close>, for a
  length that the array constructor accepts.
\<close>

definition deltaIds_of :: "int \<Rightarrow> int list" where
  "deltaIds_of n = map (\<lambda>i. int i - n div 2) [0..<nat n]"

text \<open>\<open>ws.reduce((a, b) => a + b, 0)\<close>\<close>

definition sum_weights :: "jsnum list \<Rightarrow> jsnum" where
  "sum_weights ws = foldl fadd (num 0) ws"

text \<open>
  The body shared by the three \<open>map\<close> callbacks that scale a weight to \<open>1e18\<close>: the ratio
  is multiplied by \<open>1e9\<close> as a number, floored, and multiplied by \<open>1e9\<close> as a \<open>BigInt\<close>.
\<close>

definition scale_weight :: "jsnum \<Rightarrow> jsnum \<Rightarrow> error + int" where
  "scale_weight s w =
     (case BigInt (Math_floor (fmul (fdiv w s) (num 1000000000))) of
        Inl e \<Rightarrow> Inl e
      | Inr ratioBig \<Rightarrow> Inr (ratioBig * 1000000000))"

text \<open>
  \<open>normalizedWeights\<close>: the normalisation of all weights together, with the difference
  to \<open>1e18\<close> added at \<open>centerIndex\<close>.  Its value is not part of the plan, but its
  \<open>BigInt\<close> conversions run first and may throw (\<open>BigInt(undefined)\<close> is a \<open>TypeError\<close>,
  were \<open>centerIndex\<close> outside the array).
\<close>

definition normalizedWeights :: "jsnum list \<Rightarrow> int \<Rightarrow> error + int list" where
  "normalizedWeights ws centerIndex =
     (case map_result (scale_weight (sum_weights ws)) ws of
        Inl e \<Rightarrow> Inl e
      | Inr nw \<Rightarrow>
          (let diff = PRECISION_BI - sum_list nw in
           if diff \<noteq> 0 \<and> 0 < length nw then
             (if 0 \<le> centerIndex \<and> nat centerIndex < length nw
              then Inr (nw[nat centerIndex := nw ! nat centerIndex + diff])
              else Inl TypeError)
           else Inr nw))"

text \<open>
  \<open>weights[i]\<close>: a read past the end of the array gives \<open>undefined\<close>, which arithmetic
  takes for \<open>NaN\<close> and which \<open>=== 0\<close> rejects, so it is \<open>None\<close> here.
\<close>

definition element :: "jsnum list \<Rightarrow> nat \<Rightarrow> jsnum" where
  "element ws i = (if i < length ws then ws ! i else None)"

text \<open>First pass: the weight of bin \<open>i\<close> on the X side and on the Y side.\<close>

definition weightsX :: "int list \<Rightarrow> jsnum list \<Rightarrow> int \<Rightarrow> jsnum list" where
  "weightsX ds ws n =
     map (\<lambda>i. if ds ! i < 0 then num 0
              else if 0 < ds ! i then element ws i
              else fdiv (element ws i) (num 2)) [0..<nat n]"

definition weightsY :: "int list \<Rightarrow> jsnum list \<Rightarrow> int \<Rightarrow> jsnum list" where
  "weightsY ds ws n =
     map (\<lambda>i. if ds ! i < 0 then element ws i
              else if 0 < ds ! i then num 0
              else fdiv (element ws i) (num 2)) [0..<nat n]"

text \<open>\<open>normalizedX\<close> and \<open>normalizedY\<close> before the adjustment.\<close>

definition normalize_side :: "jsnum list \<Rightarrow> error + int list" where
  "normalize_side wsS =
     map_result (\<lambda>w. if w = Some 0 then Inr 0 else scale_weight (sum_weights wsS) w) wsS"

text \<open>The adjustment: the first non-zero entry of the side takes the difference.\<close>

definition adjust :: "int list \<Rightarrow> int list" where
  "adjust ns =
     (case findIndex (\<lambda>v. v \<noteq> 0) ns of
        None \<Rightarrow> ns
      | Some k \<Rightarrow> ns[k := ns ! k + (PRECISION_BI - sum_list ns)])"

text \<open>The planner after its \<open>switch\<close>, from the raw weights to the plan.\<close>

definition normalize_plan :: "int \<Rightarrow> jsnum list \<Rightarrow> error + BinPlan" where
  "normalize_plan n ws =
     (let ds = deltaIds_of n;
          centerIndex = n div 2
      in case normalizedWeights ws centerIndex of
           Inl e \<Rightarrow> Inl e
         | Inr nw \<Rightarrow>
            (case normalize_side (weightsX ds ws n) of
               Inl e \<Rightarrow> Inl e
             | Inr normalizedX \<Rightarrow>
                (case normalize_side (weightsY ds ws n) of
                   Inl e \<Rightarrow> Inl e
                 | Inr normalizedY \<Rightarrow>
                    Inr \<lparr>deltaIds = ds,
                         distributionX = adjust normalizedX,
                         distributionY = adjust normalizedY,
                         numBins = n\<rparr>)))"

definition getDistribution_body ::
    "(real \<Rightarrow> real) \<Rightarrow> int \<Rightarrow> StrategyType \<Rightarrow> error + BinPlan" where
  "getDistribution_body mexp n strategy =
     (if 2 ^ 32 \<le> n then Inl RangeError else
      case weights mexp n strategy of
        Inl e \<Rightarrow> Inl e
      | Inr ws \<Rightarrow> normalize_plan n ws)"

text \<open>The component fixes \<open>const numBins = 10\<close>; the strategy is its only input.\<close>

definition getDistribution :: "(real \<Rightarrow> real) \<Rightarrow> StrategyType \<Rightarrow> error + BinPlan" where
  "getDistribution mexp strategy = getDistribution_body mexp 10 strategy"

text \<open>
  At run time the value of \<open>strategy\<close> is a string, and the \<open>switch\<close> compares it with
  its three case labels.  It has no \<open>default\<close>: with any other string no case is taken
  and \<open>weights\<close> keeps its initial value, the empty array.  \<open>getDistribution_untyped\<close>
  is the planner on any string.
\<close>

definition strategy_label :: "StrategyType \<Rightarrow> string" where
  "strategy_label s = (case s of Spot \<Rightarrow> ''spot'' | Curve \<Rightarrow> ''curve'' | Bidask \<Rightarrow> ''bidask'')"

definition switch_weights :: "(real \<Rightarrow> real) \<Rightarrow> int \<Rightarrow> string \<Rightarrow> error + jsnum list" where
  "switch_weights mexp n strategy =
     (if strategy = ''spot'' then weights mexp n Spot
      else if strategy = ''curve'' then weights mexp n Curve
      else if strategy = ''bidask'' then weights mexp n Bidask
      else Inr [])"

definition getDistribution_untyped :: "(real \<Rightarrow> real) \<Rightarrow> string \<Rightarrow> error + BinPlan" where
  "getDistribution_untyped mexp strategy =
     (case switch_weights mexp 10 strategy of
        Inl e \<Rightarrow> Inl e
      | Inr ws \<Rightarrow> normalize_plan 10 ws)"

text \<open>
  What the model asks of the platform's \<open>Math.exp\<close>: at each of the ten exponents of the
  curve strategy its result is within one hundredth of the exponential function,
  relatively.
\<close>

definition Math_exp_ok :: "(real \<Rightarrow> real) \<Rightarrow> bool" where
  "Math_exp_ok mexp =
     list_all (\<lambda>i. case curve_exponent 10 i of
                        None \<Rightarrow> False
                      | Some t \<Rightarrow> \<bar>mexp t - exp t\<bar> \<le> exp t / 100) [0..<10]"

text \<open>
  The raw weights as the real numbers they denote, and their exact sum (the sum of the
  mathematical values, not the rounded \<open>sum\<close> of the code).
\<close>

definition exact_at :: "jsnum list \<Rightarrow> nat \<Rightarrow> real" where
  "exact_at ws i = (case ws ! i of None \<Rightarrow> 0 | Some x \<Rightarrow> x)"

definition exact_sum :: "jsnum list \<Rightarrow> real" where
  "exact_sum ws = sum_list (map (\<lambda>w. case w of None \<Rightarrow> 0 | Some x \<Rightarrow> x) ws)"

text \<open>Lists of finite weights that are non-negative, respectively positive.\<close>

definition finite_nonneg :: "jsnum list \<Rightarrow> bool" where
  "finite_nonneg ws = list_all (\<lambda>w. case w of None \<Rightarrow> False | Some x \<Rightarrow> 0 \<le> x) ws"

definition finite_pos :: "jsnum list \<Rightarrow> bool" where
  "finite_pos ws = list_all (\<lambda>w. case w of None \<Rightarrow> False | Some x \<Rightarrow> 0 < x) ws"

section \<open>The distributions submitted by \<open>handleAddLiquidity\<close>\<close>

text \<open>
  \<open>baseWeights[i]\<close> is the sum of the two sides at bin \<open>i\<close>; a bin below the active one
  submits it on the Y side, every other bin on the X side.  \<open>BigInt(undefined)\<close> throws a
  \<open>TypeError\<close> when the three arrays of the plan differ in length.
\<close>

definition finalDistributions :: "BinPlan \<Rightarrow> error + int list \<times> int list" where
  "finalDistributions p =
     (if length (distributionY p) < length (distributionX p)
         \<or> length (distributionX p) < length (deltaIds p)
      then Inl TypeError
      else
        (let baseWeights = map (\<lambda>i. distributionX p ! i + distributionY p ! i)
                               [0..<length (distributionX p)]
         in Inr (map (\<lambda>i. if deltaIds p ! i < 0 then 0 else baseWeights ! i)
                     [0..<length (deltaIds p)],
                 map (\<lambda>i. if deltaIds p ! i < 0 then baseWeights ! i else 0)
                     [0..<length (deltaIds p)])))"

section \<open>Rounding\<close>

lemma bitlen_lower: "0 < m \<Longrightarrow> 2 ^ nat (bitlen m - 1) \<le> m"
proof -
  assume m: "0 < m"
  have "bitlen m \<le> 0 \<or> 2 ^ (nat (bitlen m) - 1) \<le> m"
    using bitlen_ge_iff_power[of "bitlen m" m] by simp
  moreover have "0 < bitlen m"
    using m bitlen_eq_zero_iff[of m] bitlen_nonneg[of m] by linarith
  moreover have "nat (bitlen m) - 1 = nat (bitlen m - 1)" by simp
  ultimately show ?thesis by simp
qed

lemma bitlen_upper: "m < 2 ^ nat (bitlen m)"
  using bitlen_le_iff_power[of m "bitlen m"] by simp

lemma expo_bounds:
  assumes "0 < x"
  shows "2 powi (expo x) \<le> x \<and> x < 2 powi (expo x + 1)"
proof (cases "1 \<le> x")
  case True
  define m where "m = \<lfloor>x\<rfloor>"
  have m: "0 < m" "of_int m \<le> x" "x < of_int m + 1"
    using True by (simp_all add: m_def)
  have b: "0 < bitlen m"
    using m(1) bitlen_eq_zero_iff[of m] bitlen_nonneg[of m] by linarith
  have e: "expo x = bitlen m - 1" using True by (simp add: expo_def m_def)
  have "(2::real) ^ nat (bitlen m - 1) \<le> of_int m"
    using bitlen_lower[OF m(1)] by (metis of_int_le_iff of_int_numeral of_int_power)
  moreover have "2 powi (expo x) = (2::real) ^ nat (bitlen m - 1)"
    using b by (simp add: e power_int_nonneg_exp)
  ultimately have lo: "2 powi (expo x) \<le> x"
    using m(2) by linarith
  have "m + 1 \<le> 2 ^ nat (bitlen m)" using bitlen_upper[of m] by simp
  then have "(of_int (m + 1) :: real) \<le> of_int (2 ^ nat (bitlen m))"
    by (rule of_int_le_iff[THEN iffD2])
  then have "x < 2 ^ nat (bitlen m)" using m(3) by simp
  moreover have "2 powi (expo x + 1) = (2::real) ^ nat (bitlen m)"
    using b by (simp add: e power_int_nonneg_exp)
  ultimately have hi: "x < 2 powi (expo x + 1)" by linarith
  show ?thesis using lo hi by simp
next
  case False
  define y where "y = 1 / x"
  define m where "m = \<lfloor>y\<rfloor>"
  define k where "k = bitlen m - 1"
  have y1: "1 < y" using False assms by (simp add: y_def)
  have m: "0 < m" "of_int m \<le> y" "y < of_int m + 1"
    using y1 by (simp_all add: m_def)
  have b: "0 < bitlen m"
    using m(1) bitlen_eq_zero_iff[of m] bitlen_nonneg[of m] by linarith
  then have k0: "0 \<le> k" by (simp add: k_def)
  have "(2::real) ^ nat k \<le> of_int m"
    using bitlen_lower[OF m(1)] unfolding k_def
    by (metis of_int_le_iff of_int_numeral of_int_power)
  then have ylo: "2 ^ nat k \<le> y" using m(2) by linarith
  have "m + 1 \<le> 2 ^ nat (bitlen m)" using bitlen_upper[of m] by simp
  then have "(of_int (m + 1) :: real) \<le> of_int (2 ^ nat (bitlen m))"
    by (rule of_int_le_iff[THEN iffD2])
  then have "y < 2 ^ nat (bitlen m)" using m(3) by simp
  moreover have "nat (bitlen m) = Suc (nat k)" using b by (simp add: k_def)
  ultimately have yhi: "y < 2 * 2 ^ nat k" by simp
  have p: "(0::real) < 2 ^ nat k" by simp
  have xy: "x * y = 1" using assms by (simp add: y_def)
  have xle: "x * 2 ^ nat k \<le> 1"
    using mult_left_mono[OF ylo, of x] assms xy by simp
  have xgt: "1 < x * (2 * 2 ^ nat k)"
    using mult_strict_left_mono[OF yhi assms] xy by simp
  have pk: "2 powi (- k) = 1 / (2::real) ^ nat k"
    using k0 by (simp add: power_int_minus_divide power_int_nonneg_exp)
  have pk1: "2 powi (- k - 1) = 1 / (2 * (2::real) ^ nat k)"
  proof -
    have "2 powi (- k - 1) = (2::real) powi (- (k + 1))" by simp
    also have "\<dots> = 1 / 2 powi (k + 1)" by (rule power_int_minus_divide)
    also have "2 powi (k + 1) = 2 * (2::real) ^ nat k"
      using k0 by (simp add: power_int_nonneg_exp nat_add_distrib)
    finally show ?thesis .
  qed
  have pk2: "2 powi (- k + 1) = 2 / (2::real) ^ nat k"
  proof -
    have "2 powi (- k + 1) = 2 powi (- k) * (2::real) powi 1"
      by (rule power_int_add) simp
    then show ?thesis using pk by simp
  qed
  show ?thesis
  proof (cases "x * 2 ^ nat k = 1")
    case True
    then have e: "expo x = - k" using False by (simp add: expo_def Let_def y_def m_def k_def)
    have xe: "x = 1 / 2 ^ nat k" using True p by (simp add: field_simps)
    have "2 powi (expo x) = x" unfolding e pk using xe by simp
    moreover have "2 powi (expo x + 1) = 2 * x" unfolding e pk2 using xe by simp
    ultimately show ?thesis using assms by simp
  next
    case neq: False
    then have e: "expo x = - k - 1" using False by (simp add: expo_def Let_def y_def m_def k_def)
    have xlt: "x * 2 ^ nat k < 1" using xle neq by simp
    have x1: "x < 1 / 2 ^ nat k" using xlt p by (simp add: pos_less_divide_eq)
    have e1: "2 powi (expo x + 1) = 1 / (2::real) ^ nat k" unfolding e using pk by simp
    have hi: "x < 2 powi (expo x + 1)" unfolding e1 by (rule x1)
    have x2: "1 / (2 * 2 ^ nat k) \<le> x" using xgt p by (simp add: pos_divide_le_eq)
    have e2: "2 powi (expo x) = 1 / (2 * (2::real) ^ nat k)" unfolding e by (rule pk1)
    have lo: "2 powi (expo x) \<le> x" unfolding e2 by (rule x2)
    show ?thesis using lo hi by simp
  qed
qed

lemma expo_unique:
  assumes "2 powi e \<le> x" "x < 2 powi (e + 1)"
  shows "expo x = e"
proof -
  have "0 < (2::real) powi e" by simp
  then have x: "0 < x" using assms(1) by linarith
  note b = expo_bounds[OF x]
  have "2 powi e < (2::real) powi (expo x + 1)" using assms(1) b by simp
  then have "e < expo x + 1"
    by (metis linorder_not_less power_int_increasing one_le_numeral)
  moreover have "2 powi (expo x) < (2::real) powi (e + 1)" using assms(2) b by simp
  then have "expo x < e + 1"
    by (metis linorder_not_less power_int_increasing one_le_numeral)
  ultimately show ?thesis by simp
qed

lemma round_even_near: "\<bar>q - of_int m\<bar> < 1 / 2 \<Longrightarrow> round_even q = m"
proof -
  assume a: "\<bar>q - of_int m\<bar> < 1 / 2"
  show ?thesis
  proof (cases "of_int m \<le> q")
    case True
    then have "\<lfloor>q\<rfloor> = m" using a by (simp add: floor_unique)
    then show ?thesis using a True by (simp add: round_even_def Let_def)
  next
    case False
    then have "\<lfloor>q\<rfloor> = m - 1" using a by (intro floor_unique) auto
    then show ?thesis using a False by (auto simp add: round_even_def Let_def)
  qed
qed

lemma round_even_close: "\<bar>of_int (round_even q) - q\<bar> \<le> 1 / 2"
  unfolding round_even_def Let_def by (auto simp: abs_if) linarith+

lemma fl_eqI:
  assumes "2 powi e \<le> \<bar>x\<bar>" "\<bar>x\<bar> < 2 powi (e + 1)"
    and "\<bar>x / 2 powi (e - 52) - of_int m\<bar> < 1 / 2"
    and "y = of_int m * 2 powi (e - 52)"
  shows "fl x = y"
proof -
  have "0 < (2::real) powi e" by simp
  then have "0 < \<bar>x\<bar>" using assms(1) by linarith
  then have "x \<noteq> 0" by simp
  moreover have "expo \<bar>x\<bar> = e" using assms(1,2) by (rule expo_unique)
  ultimately show ?thesis
    using round_even_near[OF assms(3)] assms(4) by (simp add: fl_def Let_def)
qed

lemma fl_zero: "fl 0 = 0"
  by (simp add: fl_def)

lemma fl_pos_bounds:
  assumes "0 < x"
  shows "x / 2 \<le> fl x \<and> fl x \<le> 2 * x"
proof -
  define u :: real where "u = 2 powi (expo \<bar>x\<bar> - 52)"
  define q where "q = x / u"
  define r :: real where "r = of_int (round_even q)"
  have u: "0 < u" by (simp add: u_def)
  have "2 powi (expo x) \<le> x" using expo_bounds[OF assms] by simp
  moreover have "2 powi (expo x) = (2::real) powi (expo x - 52) * 2 powi 52"
    using power_int_add[of "2::real" "expo x - 52" 52] by simp
  moreover have "(1::real) \<le> 2 powi 52" by (rule one_le_power_int) simp_all
  ultimately have "u \<le> x"
    using assms u mult_left_mono[of 1 "2 powi 52" u] by (simp add: u_def)
  then have q1: "1 \<le> q" using u by (simp add: q_def pos_le_divide_eq)
  have r: "\<bar>r - q\<bar> \<le> 1 / 2" unfolding r_def by (rule round_even_close)
  have f: "fl x = r * u" using assms by (simp add: fl_def Let_def u_def q_def r_def)
  have x: "x = q * u" using u by (simp add: q_def)
  have "q / 2 \<le> r" "r \<le> 2 * q" using r q1 by (auto simp: abs_if split: if_splits)
  then have "q / 2 * u \<le> r * u" "r * u \<le> 2 * q * u"
    using u by (auto intro: mult_right_mono)
  then have "x / 2 \<le> r * u" "r * u \<le> 2 * x" using x by simp_all
  then show ?thesis using f by simp
qed

lemma fl_nonneg_bounds: "0 \<le> x \<Longrightarrow> x / 2 \<le> fl x \<and> fl x \<le> 2 * x"
  using fl_pos_bounds[of x] by (cases "x = 0") (simp_all add: fl_zero)

lemma fl_pos: "0 < x \<Longrightarrow> 0 < fl x"
  using fl_pos_bounds[of x] by linarith

lemma fl_nonneg: "0 \<le> x \<Longrightarrow> 0 \<le> fl x"
  using fl_nonneg_bounds[of x] by linarith

section \<open>Rounding is monotone\<close>

lemma round_even_of_int: "round_even (of_int k) = k"
  by (simp add: round_even_def)

lemma round_even_mono:
  assumes "q \<le> q'"
  shows "round_even q \<le> round_even q'"
proof -
  have f: "\<lfloor>q\<rfloor> \<le> \<lfloor>q'\<rfloor>" using assms by (rule floor_mono)
  have lo: "\<lfloor>x\<rfloor> \<le> round_even x" and hi: "round_even x \<le> \<lfloor>x\<rfloor> + 1" for x
    by (simp_all add: round_even_def Let_def)
  show ?thesis
  proof (cases "\<lfloor>q\<rfloor> = \<lfloor>q'\<rfloor>")
    case True
    then have "q - of_int \<lfloor>q\<rfloor> \<le> q' - of_int \<lfloor>q'\<rfloor>" using assms by simp
    then show ?thesis using True by (auto simp: round_even_def Let_def)
  next
    case False
    then have "\<lfloor>q\<rfloor> + 1 \<le> \<lfloor>q'\<rfloor>" using f by simp
    then show ?thesis using hi[of q] lo[of q'] by linarith
  qed
qed

lemma round_even_uminus: "round_even (- q) = - round_even q"
proof (cases "q = of_int \<lfloor>q\<rfloor>")
  case True
  then obtain k where "q = of_int k" ..
  then show ?thesis using round_even_of_int[of k] round_even_of_int[of "- k"] by simp
next
  case False
  have "of_int \<lfloor>q\<rfloor> \<le> q" by (rule of_int_floor_le)
  then have lt: "of_int \<lfloor>q\<rfloor> < q" using False by linarith
  have gt: "q < of_int \<lfloor>q\<rfloor> + 1" by linarith
  have fm: "\<lfloor>- q\<rfloor> = - \<lfloor>q\<rfloor> - 1"
  proof (rule floor_unique)
    have c: "(of_int (- \<lfloor>q\<rfloor> - 1) :: real) = - of_int \<lfloor>q\<rfloor> - 1" by simp
    show "of_int (- \<lfloor>q\<rfloor> - 1) \<le> - q" unfolding c using gt by linarith
    show "- q < of_int (- \<lfloor>q\<rfloor> - 1) + 1" unfolding c using lt by linarith
  qed
  have e: "even (- \<lfloor>q\<rfloor> - 1) \<longleftrightarrow> odd \<lfloor>q\<rfloor>" by simp
  show ?thesis
    unfolding round_even_def Let_def fm e by (auto simp: algebra_simps)
qed

lemma fl_uminus: "fl (- x) = - fl x"
  by (simp add: fl_def Let_def round_even_uminus)

lemma fl_binade:
  assumes "0 < x"
  shows "2 powi (expo x) \<le> fl x \<and> fl x \<le> 2 powi (expo x + 1)"
proof -
  define u :: real where "u = 2 powi (expo x - 52)"
  have u: "0 < u" by (simp add: u_def)
  have f: "fl x = of_int (round_even (x / u)) * u"
    using assms by (simp add: fl_def Let_def u_def)
  have e0: "2 powi (expo x) = 2 ^ 52 * u"
    using power_int_add[of "2::real" 52 "expo x - 52"] by (simp add: u_def)
  have "expo x + 1 = 53 + (expo x - 52)" by simp
  then have "2 powi (expo x + 1) = (2::real) powi (53 + (expo x - 52))" by (rule arg_cong)
  also have "\<dots> = 2 ^ 53 * u"
    using power_int_add[of "2::real" 53 "expo x - 52"] by (simp add: u_def)
  finally have e1: "2 powi (expo x + 1) = 2 ^ 53 * u" .
  from expo_bounds[OF assms] have "2 ^ 52 * u \<le> x" "x < 2 ^ 53 * u"
    unfolding e0 e1 by simp_all
  then have q: "of_int (2 ^ 52) \<le> x / u" "x / u \<le> of_int (2 ^ 53)"
    using u by (simp_all add: pos_le_divide_eq pos_divide_le_eq)
  have "2 ^ 52 \<le> round_even (x / u)" "round_even (x / u) \<le> 2 ^ 53"
    using round_even_mono[OF q(1)] round_even_mono[OF q(2)]
    unfolding round_even_of_int by simp_all
  then have "(2::real) ^ 52 \<le> of_int (round_even (x / u))"
    "of_int (round_even (x / u)) \<le> (2::real) ^ 53"
    by (metis of_int_le_iff of_int_numeral of_int_power)+
  then have "2 ^ 52 * u \<le> of_int (round_even (x / u)) * u"
    "of_int (round_even (x / u)) * u \<le> 2 ^ 53 * u"
    using u by (simp_all add: mult_right_mono)
  then show ?thesis unfolding f e0 e1 by simp
qed

lemma fl_mono_pos:
  assumes "0 < x" "x \<le> y"
  shows "fl x \<le> fl y"
proof -
  have y: "0 < y" using assms by simp
  note bx = expo_bounds[OF assms(1)] and by' = expo_bounds[OF y]
  have "2 powi (expo x) < (2::real) powi (expo y + 1)" using bx by' assms(2) by linarith
  then have "expo x < expo y + 1"
    by (metis linorder_not_less power_int_increasing one_le_numeral)
  then consider "expo x = expo y" | "expo x + 1 \<le> expo y" by linarith
  then show ?thesis
  proof cases
    case 1
    define u :: real where "u = 2 powi (expo x - 52)"
    have u: "0 < u" by (simp add: u_def)
    have "x / u \<le> y / u" using assms(2) u by (simp add: divide_right_mono)
    then have "round_even (x / u) \<le> round_even (y / u)" by (rule round_even_mono)
    then have "(of_int (round_even (x / u)) :: real) \<le> of_int (round_even (y / u))" by simp
    then have "of_int (round_even (x / u)) * u \<le> of_int (round_even (y / u)) * u"
      using u by (simp add: mult_right_mono)
    then show ?thesis using assms(1) y 1 by (simp add: fl_def Let_def u_def)
  next
    case 2
    then have "(2::real) powi (expo x + 1) \<le> 2 powi (expo y)"
      by (intro power_int_increasing) simp_all
    then show ?thesis using fl_binade[OF assms(1)] fl_binade[OF y] by linarith
  qed
qed

lemma fl_mono_nonneg: "0 \<le> x \<Longrightarrow> x \<le> y \<Longrightarrow> fl x \<le> fl y"
  using fl_mono_pos[of x y] fl_nonneg[of y] by (cases "x = 0") (simp_all add: fl_zero)

lemma fl_repr:
  assumes "\<bar>m\<bar> < 2 ^ 53"
  shows "fl (of_int m * 2 powi k) = of_int m * 2 powi k"
proof (cases "m = 0")
  case True
  then show ?thesis by (simp add: fl_zero)
next
  case False
  define x :: real where "x = of_int m * 2 powi k"
  define e where "e = expo \<bar>x\<bar>"
  have ax: "\<bar>x\<bar> = of_int \<bar>m\<bar> * 2 powi k" by (simp add: x_def abs_mult)
  have "(of_int \<bar>m\<bar> :: real) < of_int (2 ^ 53)" using assms by (simp only: of_int_less_iff)
  then have m53: "(of_int \<bar>m\<bar> :: real) < 2 ^ 53" by simp
  have "(1::real) \<le> of_int \<bar>m\<bar>" using False by (simp add: of_int_abs[symmetric] del: of_int_abs)
  then have x0: "0 < \<bar>x\<bar>" unfolding ax by (intro mult_pos_pos) simp_all
  have "\<bar>x\<bar> < 2 ^ 53 * 2 powi k" unfolding ax using m53 by (intro mult_strict_right_mono) simp_all
  also have "\<dots> = 2 powi (53 + k)" using power_int_add[of "2::real" 53 k] by simp
  finally have "2 powi e < (2::real) powi (53 + k)"
    using expo_bounds[OF x0] unfolding e_def by linarith
  then have "e < 53 + k"
    by (metis linorder_not_less power_int_increasing one_le_numeral)
  then have j: "0 \<le> k - (e - 52)" by simp
  define j where "j = nat (k - (e - 52))"
  have "2 powi k / (2::real) powi (e - 52) = 2 powi (k - (e - 52))"
    by (simp add: power_int_diff)
  also have "\<dots> = 2 ^ j" using j by (simp add: power_int_nonneg_exp j_def)
  finally have d: "2 powi k / (2::real) powi (e - 52) = 2 ^ j" .
  have "x / 2 powi (e - 52) = of_int m * (2 powi k / 2 powi (e - 52))"
    by (simp add: x_def)
  also have "\<dots> = of_int (m * 2 ^ j)" unfolding d by simp
  finally have q: "x / 2 powi (e - 52) = of_int (m * 2 ^ j)" .
  have "x \<noteq> 0" using x0 by simp
  then have "fl x = of_int (m * 2 ^ j) * 2 powi (e - 52)"
    unfolding fl_def Let_def e_def[symmetric] q round_even_of_int by simp
  also have "\<dots> = of_int m * (2 ^ j * 2 powi (e - 52))" by simp
  also have "2 ^ j * (2::real) powi (e - 52) = 2 powi k"
    using d by (simp add: field_simps)
  finally show ?thesis by (simp add: x_def)
qed

lemma fl_of_int: "\<bar>m\<bar> < 2 ^ 53 \<Longrightarrow> fl (of_int m) = of_int m"
  using fl_repr[of m 0] by simp

lemma fl_half_int: "\<bar>m\<bar> < 2 ^ 53 \<Longrightarrow> fl (of_int m / 2) = of_int m / 2"
  using fl_repr[of m "- 1"] by simp

section \<open>Lists, \<open>map\<close> with exceptions, \<open>findIndex\<close>\<close>

lemma map_result_Inr:
  "map_result f xs = Inr ys \<Longrightarrow>
     length ys = length xs \<and> (\<forall>i<length xs. f (xs ! i) = Inr (ys ! i))"
proof (induction xs arbitrary: ys)
  case Nil
  then show ?case by simp
next
  case (Cons x xs)
  from Cons.prems obtain y ys' where
    y: "f x = Inr y" and ys': "map_result f xs = Inr ys'" and ys: "ys = y # ys'"
    by (auto split: sum.splits)
  from Cons.IH[OF ys'] have
    "length ys' = length xs" "\<forall>i<length xs. f (xs ! i) = Inr (ys' ! i)" by simp_all
  then show ?case using y ys by (auto simp: nth_Cons split: nat.splits)
qed

lemma map_result_total:
  "(\<forall>x\<in>set xs. f x = Inr (g x)) \<Longrightarrow> map_result f xs = Inr (map g xs)"
  by (induction xs) simp_all

lemma findIndex_None: "findIndex p xs = None \<longleftrightarrow> (\<forall>x\<in>set xs. \<not> p x)"
  by (induction xs) auto

lemma findIndex_Some:
  "findIndex p xs = Some k \<Longrightarrow> k < length xs \<and> p (xs ! k) \<and> (\<forall>j<k. \<not> p (xs ! j))"
proof (induction xs arbitrary: k)
  case Nil
  then show ?case by simp
next
  case (Cons x xs)
  show ?case
  proof (cases "p x")
    case True
    then show ?thesis using Cons.prems by simp
  next
    case False
    then obtain k' where k': "findIndex p xs = Some k'" "k = Suc k'"
      using Cons.prems by auto
    from Cons.IH[OF k'(1)] show ?thesis
      using False k'(2) by (auto simp: nth_Cons split: nat.splits)
  qed
qed

lemma sum_list_update_int:
  "k < length xs \<Longrightarrow> sum_list (xs[k := v]) = sum_list xs - xs ! k + (v::int)"
  by (induction xs arbitrary: k) (auto simp: nth_Cons split: nat.splits)

section \<open>The adjustment\<close>

lemma length_adjust: "length (adjust ns) = length ns"
  by (simp add: adjust_def split: option.splits)

lemma adjust_all_zero: "\<forall>v\<in>set ns. v = 0 \<Longrightarrow> adjust ns = ns"
  using findIndex_None[of "\<lambda>v. v \<noteq> 0" ns] by (simp add: adjust_def)

lemma adjust_sum:
  assumes "\<exists>v\<in>set ns. v \<noteq> 0"
  shows "sum_list (adjust ns) = PRECISION_BI"
proof -
  from assms obtain k where k: "findIndex (\<lambda>v. v \<noteq> 0) ns = Some k"
    using findIndex_None[of "\<lambda>v. v \<noteq> 0" ns] by (cases "findIndex (\<lambda>v. v \<noteq> 0) ns") auto
  then have "k < length ns" using findIndex_Some by fastforce
  then show ?thesis using k by (simp add: adjust_def sum_list_update_int)
qed

lemma adjust_keeps_zero:
  assumes "i < length ns" "ns ! i = 0"
  shows "adjust ns ! i = 0"
proof (cases "findIndex (\<lambda>v. v \<noteq> 0) ns")
  case None
  then show ?thesis using assms by (simp add: adjust_def)
next
  case (Some k)
  then have "ns ! k \<noteq> 0" using findIndex_Some by fastforce
  then have "k \<noteq> i" using assms by auto
  then show ?thesis using Some assms by (simp add: adjust_def)
qed

lemma adjust_nonzero_sum:
  "\<exists>v\<in>set (adjust ns). v \<noteq> 0 \<Longrightarrow> sum_list (adjust ns) = PRECISION_BI"
proof (cases "\<exists>v\<in>set ns. v \<noteq> 0")
  case True
  then show ?thesis by (rule adjust_sum)
next
  case False
  assume a: "\<exists>v\<in>set (adjust ns). v \<noteq> 0"
  from False have "adjust ns = ns" by (intro adjust_all_zero) simp
  then show ?thesis using a False by simp
qed

section \<open>Normalising one side\<close>

lemma finite_nonneg_Cons:
  "finite_nonneg (w # ws) \<longleftrightarrow> (\<exists>x. w = Some x \<and> 0 \<le> x) \<and> finite_nonneg ws"
  by (auto simp: finite_nonneg_def split: option.splits)

lemma finite_nonneg_nth:
  "finite_nonneg ws \<Longrightarrow> w \<in> set ws \<Longrightarrow> \<exists>x. w = Some x \<and> 0 \<le> x"
  by (auto simp: finite_nonneg_def list_all_iff split: option.splits)

lemma exact_sum_Cons: "exact_sum (Some x # ws) = x + exact_sum ws"
  by (simp add: exact_sum_def)

lemma exact_sum_nonneg: "finite_nonneg ws \<Longrightarrow> 0 \<le> exact_sum ws"
  by (induction ws) (auto simp: finite_nonneg_Cons exact_sum_Cons, simp add: exact_sum_def)

lemma exact_sum_le:
  "finite_nonneg ws \<Longrightarrow> \<forall>x. Some x \<in> set ws \<longrightarrow> x \<le> c \<Longrightarrow>
     exact_sum ws \<le> of_nat (length ws) * c"
proof (induction ws)
  case Nil
  then show ?case by (simp add: exact_sum_def)
next
  case (Cons w ws)
  from Cons.prems(1) obtain x where x: "w = Some x" "finite_nonneg ws"
    by (auto simp: finite_nonneg_Cons)
  have "x \<le> c" using Cons.prems(2) x(1) by simp
  moreover have "exact_sum ws \<le> of_nat (length ws) * c"
    using Cons.IH[OF x(2)] Cons.prems(2) by simp
  ultimately show ?case by (simp add: x(1) exact_sum_Cons algebra_simps)
qed

lemma foldl_fadd_bounds:
  "finite_nonneg ws \<Longrightarrow> 0 \<le> a \<Longrightarrow>
     \<exists>S. foldl fadd (Some a) ws = Some S
        \<and> (a + exact_sum ws) / 2 ^ length ws \<le> S
        \<and> S \<le> 2 ^ length ws * (a + exact_sum ws)"
proof (induction ws arbitrary: a)
  case Nil
  then show ?case by (simp add: exact_sum_def)
next
  case (Cons w ws)
  from Cons.prems(1) obtain x where x: "w = Some x" "0 \<le> x" "finite_nonneg ws"
    by (auto simp: finite_nonneg_Cons)
  define a' where "a' = fl (a + x)"
  have ax: "0 \<le> a + x" using Cons.prems(2) x(2) by simp
  have a': "(a + x) / 2 \<le> a'" "a' \<le> 2 * (a + x)" "0 \<le> a'"
    using fl_nonneg_bounds[OF ax] fl_nonneg[OF ax] by (simp_all add: a'_def)
  from Cons.IH[OF x(3) a'(3)] obtain S where
    S: "foldl fadd (Some a') ws = Some S"
       "(a' + exact_sum ws) / 2 ^ length ws \<le> S"
       "S \<le> 2 ^ length ws * (a' + exact_sum ws)" by blast
  have e: "0 \<le> exact_sum ws" using x(3) by (rule exact_sum_nonneg)
  have p: "(0::real) < 2 ^ length ws" by simp
  define T where "T = a + x + exact_sum ws"
  define T' where "T' = a' + exact_sum ws"
  define P :: real where "P = 2 ^ length ws"
  have P: "0 < P" by (simp add: P_def)
  have h1: "T / 2 \<le> T'" using a'(1) e by (simp add: T_def T'_def)
  have "T / 2 / P \<le> T' / P" using P by (intro divide_right_mono[OF h1]) simp
  moreover have "T' / P \<le> S" using S(2) by (simp add: T'_def P_def)
  moreover have "(a + exact_sum (w # ws)) / 2 ^ length (w # ws) = T / 2 / P"
    by (simp add: x(1) exact_sum_Cons T_def P_def add.assoc)
  ultimately have lo: "(a + exact_sum (w # ws)) / 2 ^ length (w # ws) \<le> S" by linarith
  have h2: "T' \<le> 2 * T" using a'(2) e by (simp add: T_def T'_def)
  have "P * T' \<le> P * (2 * T)" using P by (intro mult_left_mono[OF h2]) simp
  moreover have "S \<le> P * T'" using S(3) by (simp add: T'_def P_def)
  moreover have "2 ^ length (w # ws) * (a + exact_sum (w # ws)) = P * (2 * T)"
    by (simp add: x(1) exact_sum_Cons T_def P_def add.assoc)
  ultimately have hi: "S \<le> 2 ^ length (w # ws) * (a + exact_sum (w # ws))" by linarith
  show ?case using S(1) lo hi by (auto simp: x(1) a'_def)
qed

lemma sum_weights_pos:
  assumes "finite_nonneg ws" "0 < exact_sum ws"
  shows "\<exists>S. sum_weights ws = Some S \<and> 0 < S \<and> S \<le> 2 ^ length ws * exact_sum ws"
proof -
  from foldl_fadd_bounds[OF assms(1), of 0] obtain S where
    S: "foldl fadd (Some 0) ws = Some S" "exact_sum ws / 2 ^ length ws \<le> S"
       "S \<le> 2 ^ length ws * exact_sum ws" by auto
  have "0 < exact_sum ws / 2 ^ length ws" using assms(2) by simp
  then have "0 < S" using S(2) by linarith
  then show ?thesis using S by (simp add: sum_weights_def num_def)
qed

lemma BigInt_floor: "BigInt (Math_floor (Some y)) = Inr \<lfloor>y\<rfloor>"
  by (simp add: BigInt_def Math_floor_def)

lemma scale_weight_value:
  "S \<noteq> 0 \<Longrightarrow> scale_weight (Some S) (Some x) =
     Inr (\<lfloor>fl (fl (x / S) * 1000000000)\<rfloor> * 1000000000)"
  by (simp add: scale_weight_def num_def BigInt_floor)

lemma scaled_zero_small:
  assumes "0 < S" "0 \<le> x" "\<lfloor>fl (fl (x / S) * 1000000000)\<rfloor> = 0"
  shows "x \<le> S / 250000000"
proof -
  define t where "t = x / S"
  define y where "y = fl t"
  define z where "z = fl (y * 1000000000)"
  have xs: "0 \<le> t" using assms(1,2) by (simp add: t_def)
  have y: "t / 2 \<le> y" "0 \<le> y" using fl_nonneg_bounds[OF xs] fl_nonneg[OF xs]
    by (simp_all add: y_def)
  then have y9: "0 \<le> y * 1000000000" by simp
  have z: "y * 1000000000 / 2 \<le> z" using fl_nonneg_bounds[OF y9] by (simp add: z_def)
  have "z < 1" using assms(3) unfolding z_def y_def t_def by linarith
  then have "y < 1 / 500000000" using z by simp
  then have "t < 1 / 250000000" using y(1) by linarith
  then have "x / S < 1 / 250000000" by (simp add: t_def)
  then have "x < S / 250000000" using assms(1) by (simp add: field_simps)
  then show ?thesis by simp
qed

lemma normalize_side_total:
  assumes "finite_nonneg ws" "0 < exact_sum ws" "length ws \<le> 10"
  shows "\<exists>ns. normalize_side ws = Inr ns \<and> (\<exists>v\<in>set ns. v \<noteq> 0)"
proof -
  from sum_weights_pos[OF assms(1,2)] obtain S where
    S: "sum_weights ws = Some S" "0 < S" "S \<le> 2 ^ length ws * exact_sum ws" by blast
  define g where "g = (\<lambda>w. if w = Some 0 then 0
     else \<lfloor>fl (fl ((case w of None \<Rightarrow> 0 | Some x \<Rightarrow> x) / S) * 1000000000)\<rfloor> * (1000000000::int))"
  have "\<forall>w\<in>set ws. (if w = Some 0 then Inr 0 else scale_weight (sum_weights ws) w) = Inr (g w)"
  proof
    fix w assume "w \<in> set ws"
    then obtain x where "w = Some x" using finite_nonneg_nth[OF assms(1)] by blast
    then show "(if w = Some 0 then Inr 0 else scale_weight (sum_weights ws) w) = Inr (g w)"
      using S(1,2) by (simp add: g_def scale_weight_value)
  qed
  then have ns: "normalize_side ws = Inr (map g ws)"
    unfolding normalize_side_def by (rule map_result_total)
  have "\<exists>v\<in>set (map g ws). v \<noteq> 0"
  proof (rule ccontr)
    assume "\<not> (\<exists>v\<in>set (map g ws). v \<noteq> 0)"
    then have z: "\<forall>w\<in>set ws. g w = 0" by simp
    have "\<forall>x. Some x \<in> set ws \<longrightarrow> x \<le> S / 250000000"
    proof (intro allI impI)
      fix x assume m: "Some x \<in> set ws"
      then have x0: "0 \<le> x" using finite_nonneg_nth[OF assms(1) m] by simp
      show "x \<le> S / 250000000"
      proof (cases "x = 0")
        case True
        then show ?thesis using S(2) by simp
      next
        case False
        then have "\<lfloor>fl (fl (x / S) * 1000000000)\<rfloor> = 0" using z m by (auto simp: g_def)
        then show ?thesis using scaled_zero_small[OF S(2) x0] by simp
      qed
    qed
    then have "exact_sum ws \<le> of_nat (length ws) * (S / 250000000)"
      using exact_sum_le[OF assms(1)] by blast
    also have "\<dots> \<le> 10 * (S / 250000000)"
      using assms(3) S(2) by (intro mult_right_mono) simp_all
    finally have 1: "exact_sum ws \<le> S / 25000000" by simp
    have "(2::real) ^ length ws \<le> 2 ^ 10" using assms(3) by (intro power_increasing) simp_all
    then have "2 ^ length ws * exact_sum ws \<le> 2 ^ 10 * exact_sum ws"
      using assms(2) by (intro mult_right_mono) simp_all
    then have "S \<le> 1024 * exact_sum ws" using S(3) by simp
    then show False using 1 assms(2) by simp
  qed
  then show ?thesis using ns by blast
qed

lemma normalize_side_Inr:
  assumes "normalize_side ws = Inr ns"
  shows "length ns = length ws" and "\<And>i. i < length ws \<Longrightarrow> ws ! i = Some 0 \<Longrightarrow> ns ! i = 0"
proof -
  note m = map_result_Inr[OF assms[unfolded normalize_side_def]]
  show "length ns = length ws" using m by simp
  fix i assume "i < length ws" "ws ! i = Some 0"
  then show "ns ! i = 0" using m by auto
qed

lemma normalizedWeights_total:
  assumes "finite_nonneg ws" "0 < exact_sum ws" "0 \<le> c" "nat c < length ws"
  shows "\<exists>nw. normalizedWeights ws c = Inr nw"
proof -
  from sum_weights_pos[OF assms(1,2)] obtain S where
    S: "sum_weights ws = Some S" "0 < S" by blast
  define g where "g = (\<lambda>w. \<lfloor>fl (fl ((case w of None \<Rightarrow> 0 | Some x \<Rightarrow> x) / S) * 1000000000)\<rfloor>
     * (1000000000::int))"
  have "\<forall>w\<in>set ws. scale_weight (sum_weights ws) w = Inr (g w)"
  proof
    fix w assume "w \<in> set ws"
    then obtain x where "w = Some x" using finite_nonneg_nth[OF assms(1)] by blast
    then show "scale_weight (sum_weights ws) w = Inr (g w)"
      using S by (simp add: g_def scale_weight_value)
  qed
  then have "map_result (scale_weight (sum_weights ws)) ws = Inr (map g ws)"
    by (rule map_result_total)
  then show ?thesis using assms(3,4) by (simp add: normalizedWeights_def Let_def)
qed

section \<open>Evaluating the rounding\<close>

text \<open>
  A rounding is evaluated by naming the exponent and the significand of the result
  (\<open>fl_eqI\<close>, and \<open>fl_tieI\<close> for a tie).  The facts \<open>fl_v1\<close>, ... are the roundings
  that the three strategies perform with ten bins.
\<close>

lemma round_even_tie:
  "q = of_int f + 1 / 2 \<Longrightarrow> round_even q = (if even f then f else f + 1)"
proof -
  assume q: "q = of_int f + 1 / 2"
  have "\<lfloor>q\<rfloor> = f" unfolding q by (rule floor_unique) simp_all
  then show ?thesis using q by (simp add: round_even_def Let_def)
qed

lemma fl_tieI:
  assumes "2 powi e \<le> \<bar>x\<bar>" "\<bar>x\<bar> < 2 powi (e + 1)"
    and "x / 2 powi (e - 52) = of_int f + 1 / 2"
    and "y = of_int (if even f then f else f + 1) * 2 powi (e - 52)"
  shows "fl x = y"
proof -
  have "0 < (2::real) powi e" by simp
  then have "0 < \<bar>x\<bar>" using assms(1) by linarith
  then have "x \<noteq> 0" by simp
  moreover have "expo \<bar>x\<bar> = e" using assms(1,2) by (rule expo_unique)
  ultimately show ?thesis
    using round_even_tie[OF assms(3)] assms(4) by (simp add: fl_def Let_def)
qed

lemma fl_v1: "fl (1 / 2) = 1 / 2"
  by (rule fl_eqI[where e = "- 1" and m = 4503599627370496]) simp_all

lemma fl_v2: "fl (3 / 2) = 3 / 2"
  by (rule fl_eqI[where e = 0 and m = 6755399441055744]) simp_all

lemma fl_v3: "fl (5 / 2) = 5 / 2"
  by (rule fl_eqI[where e = 1 and m = 5629499534213120]) simp_all

lemma fl_v4: "fl (7 / 2) = 7 / 2"
  by (rule fl_eqI[where e = 1 and m = 7881299347898368]) simp_all

lemma fl_v5: "fl (9 / 2) = 9 / 2"
  by (rule fl_eqI[where e = 2 and m = 5066549580791808]) simp_all

lemma fl_v6: "fl (1 / 9) = 2001599834386887 / 18014398509481984"
  by (rule fl_eqI[where e = "- 4" and m = 8006399337547548]) simp_all

lemma fl_v7: "fl (3909374676536888671875 / 35184372088832) = 1864135111111111 / 16777216"
  by (rule fl_eqI[where e = 26 and m = 7456540444444444]) simp_all

lemma fl_v8: "fl (2 / 9) = 2001599834386887 / 9007199254740992"
  by (rule fl_eqI[where e = "- 3" and m = 8006399337547548]) simp_all

lemma fl_v9: "fl (3909374676536888671875 / 17592186044416) = 1864135111111111 / 8388608"
  by (rule fl_eqI[where e = 27 and m = 7456540444444444]) simp_all

lemma fl_v10: "fl 1 = 1"
  by (rule fl_eqI[where e = 0 and m = 4503599627370496]) simp_all

lemma fl_v11: "fl 2 = 2"
  by (rule fl_eqI[where e = 1 and m = 4503599627370496]) simp_all

lemma fl_v12: "fl 3 = 3"
  by (rule fl_eqI[where e = 1 and m = 6755399441055744]) simp_all

lemma fl_v13: "fl 4 = 4"
  by (rule fl_eqI[where e = 2 and m = 4503599627370496]) simp_all

lemma fl_v14: "fl 5 = 5"
  by (rule fl_eqI[where e = 2 and m = 5629499534213120]) simp_all

lemma fl_v15: "fl (11 / 2) = 11 / 2"
  by (rule fl_eqI[where e = 2 and m = 6192449487634432]) simp_all

lemma fl_v16: "fl (2 / 11) = 3275345183542179 / 18014398509481984"
  by (rule fl_eqI[where e = "- 3" and m = 6550690367084358]) simp_all

lemma fl_v17: "fl (6397158561605818359375 / 35184372088832) = 3050402909090909 / 16777216"
  by (rule fl_eqI[where e = 27 and m = 6100805818181818]) simp_all

lemma fl_v18: "fl (1 / 11) = 3275345183542179 / 36028797018963968"
  by (rule fl_eqI[where e = "- 4" and m = 6550690367084358]) simp_all

lemma fl_v19: "fl (6397158561605818359375 / 70368744177664) = 3050402909090909 / 33554432"
  by (rule fl_eqI[where e = 26 and m = 6100805818181818]) simp_all

lemma fl_v20: "fl 6 = 6"
  by (rule fl_eqI[where e = 2 and m = 6755399441055744]) simp_all

lemma fl_v21: "fl 7 = 7"
  by (rule fl_eqI[where e = 2 and m = 7881299347898368]) simp_all

lemma fl_v22: "fl 8 = 8"
  by (rule fl_eqI[where e = 3 and m = 4503599627370496]) simp_all

lemma fl_v23: "fl 9 = 9"
  by (rule fl_eqI[where e = 3 and m = 5066549580791808]) simp_all

lemma fl_v24: "fl 10 = 10"
  by (rule fl_eqI[where e = 3 and m = 5629499534213120]) simp_all

lemma fl_v25: "fl (1 / 10) = 3602879701896397 / 36028797018963968"
  by (rule fl_eqI[where e = "- 4" and m = 7205759403792794]) simp_all

lemma fl_v26: "fl (7036874417766400390625 / 70368744177664) = 100000000"
  by (rule fl_eqI[where e = 26 and m = 6710886400000000]) simp_all

lemma fl_v27: "fl (- (9 / 2)) = - (9 / 2)"
  by (rule fl_eqI[where e = 2 and m = "- 5066549580791808"]) simp_all

lemma fl_v28: "fl (- 1) = - 1"
  by (rule fl_eqI[where e = 0 and m = "- 4503599627370496"]) simp_all

lemma fl_v29: "fl (39631676720860365 / 36028797018963968) = 2476979795053773 / 2251799813685248"
  by (rule fl_eqI[where e = 0 and m = 4953959590107546]) simp_all

lemma fl_v30: "fl (- (7 / 2)) = - (7 / 2)"
  by (rule fl_eqI[where e = 1 and m = "- 7881299347898368"]) simp_all

lemma fl_v31: "fl (- (7 / 9)) = - (7005599420354105 / 9007199254740992)"
  by (rule fl_eqI[where e = "- 1" and m = "- 7005599420354105"]) simp_all

lemma fl_v32: "fl (49078423238465771965363590351025 / 81129638414606681695789005144064) = 340549971822769 / 562949953421312"
  by (rule fl_eqI[where e = "- 1" and m = 5448799549164304]) simp_all

lemma fl_v33: "fl (25398077898553613 / 36028797018963968) = 6349519474638403 / 9007199254740992"
  by (rule fl_eqI[where e = "- 1" and m = 6349519474638403]) simp_all

lemma fl_v34: "fl (- (5 / 2)) = - (5 / 2)"
  by (rule fl_eqI[where e = 1 and m = "- 5629499534213120"]) simp_all

lemma fl_v35: "fl (- (5 / 9)) = - (2501999792983609 / 4503599627370496)"
  by (rule fl_eqI[where e = "- 1" and m = "- 5003999585967218"]) simp_all

lemma fl_v36: "fl (6260002964090022291786142664881 / 20282409603651670423947251286016) = 694999942495447 / 2251799813685248"
  by (rule fl_eqI[where e = "- 2" and m = 5559999539963576]) simp_all

lemma fl_v37: "fl (14722878781823549 / 36028797018963968) = 3680719695455887 / 9007199254740992"
  by (rule fl_tieI[where e = "- 2" and f = 7361439390911774]) simp_all

lemma fl_v38: "fl (- (3 / 2)) = - (3 / 2)"
  by (rule fl_eqI[where e = 0 and m = "- 6755399441055744"]) simp_all

lemma fl_v39: "fl (- (1 / 3)) = - (6004799503160661 / 18014398509481984)"
  by (rule fl_eqI[where e = "- 2" and m = "- 6004799503160661"]) simp_all

lemma fl_v40: "fl (36057617073158521194928777956921 / 324518553658426726783156020576256) = 2001599834386887 / 18014398509481984"
  by (rule fl_eqI[where e = "- 4" and m = 8006399337547548]) simp_all

lemma fl_v41: "fl (7606079370670171 / 36028797018963968) = 7606079370670171 / 36028797018963968"
  by (rule fl_eqI[where e = "- 3" and m = 7606079370670171]) simp_all

lemma fl_v42: "fl (- (1 / 2)) = - (1 / 2)"
  by (rule fl_eqI[where e = "- 1" and m = "- 4503599627370496"]) simp_all

lemma fl_v43: "fl (- (1 / 9)) = - (2001599834386887 / 18014398509481984)"
  by (rule fl_eqI[where e = "- 4" and m = "- 8006399337547548"]) simp_all

lemma fl_v44: "fl (4006401897017613466103197550769 / 324518553658426726783156020576256) = 222399981598543 / 18014398509481984"
  by (rule fl_eqI[where e = "- 7" and m = 7116799411153376]) simp_all

lemma fl_v45: "fl (4047679665093483 / 36028797018963968) = 4047679665093483 / 36028797018963968"
  by (rule fl_eqI[where e = "- 4" and m = 8095359330186966]) simp_all

lemma fl_v46: "fl (1 / 3) = 6004799503160661 / 18014398509481984"
  by (rule fl_eqI[where e = "- 2" and m = 6004799503160661]) simp_all

lemma fl_v47: "fl (5 / 9) = 2501999792983609 / 4503599627370496"
  by (rule fl_eqI[where e = "- 1" and m = 5003999585967218]) simp_all

lemma fl_v48: "fl (7 / 9) = 7005599420354105 / 9007199254740992"
  by (rule fl_eqI[where e = "- 1" and m = 7005599420354105]) simp_all

lemma fl_v49: "fl (- 5) = - 5"
  by (rule fl_eqI[where e = 2 and m = "- 5629499534213120"]) simp_all

lemma fl_v50: "fl 25 = 25"
  by (rule fl_eqI[where e = 4 and m = 7036874417766400]) simp_all

lemma fl_v51: "fl (25 / 2) = 25 / 2"
  by (rule fl_eqI[where e = 3 and m = 7036874417766400]) simp_all

lemma fl_v52: "fl (- 2) = - 2"
  by (rule fl_eqI[where e = 1 and m = "- 4503599627370496"]) simp_all

lemma fl_v53: "fl (- 4) = - 4"
  by (rule fl_eqI[where e = 2 and m = "- 4503599627370496"]) simp_all

lemma fl_v54: "fl 16 = 16"
  by (rule fl_eqI[where e = 4 and m = 4503599627370496]) simp_all

lemma fl_v55: "fl (- (32 / 25)) = - (5764607523034235 / 4503599627370496)"
  by (rule fl_eqI[where e = 0 and m = "- 5764607523034235"]) simp_all

lemma fl_v56: "fl (- 3) = - 3"
  by (rule fl_eqI[where e = 1 and m = "- 6755399441055744"]) simp_all

lemma fl_v57: "fl (- (18 / 25)) = - (3242591731706757 / 4503599627370496)"
  by (rule fl_eqI[where e = "- 1" and m = "- 6485183463413514"]) simp_all

lemma fl_v58: "fl (- (8 / 25)) = - (5764607523034235 / 18014398509481984)"
  by (rule fl_eqI[where e = "- 2" and m = "- 5764607523034235"]) simp_all

lemma fl_v59: "fl (- (2 / 25)) = - (5764607523034235 / 72057594037927936)"
  by (rule fl_eqI[where e = "- 4" and m = "- 5764607523034235"]) simp_all

lemmas fl_vals = fl_zero fl_v1 fl_v2 fl_v3 fl_v4 fl_v5 fl_v6 fl_v7 fl_v8 fl_v9 fl_v10 fl_v11 fl_v12 fl_v13 fl_v14 fl_v15 fl_v16 fl_v17 fl_v18 fl_v19 fl_v20 fl_v21 fl_v22 fl_v23 fl_v24 fl_v25 fl_v26 fl_v27 fl_v28 fl_v29 fl_v30 fl_v31 fl_v32 fl_v33 fl_v34 fl_v35 fl_v36 fl_v37 fl_v38 fl_v39 fl_v40 fl_v41 fl_v42 fl_v43 fl_v44 fl_v45 fl_v46 fl_v47 fl_v48 fl_v49 fl_v50 fl_v51 fl_v52 fl_v53 fl_v54 fl_v55 fl_v56 fl_v57 fl_v58 fl_v59

section \<open>The ten bins\<close>

lemma upt_10: "[0..<10] = [0, 1, 2, 3, 4, 5, 6, 7, 8, 9]"
  by (simp add: upt_rec)

lemma deltaIds_of_10: "deltaIds_of 10 = [- 5, - 4, - 3, - 2, - 1, 0, 1, 2, 3, 4]"
  by (simp add: deltaIds_of_def upt_10)

lemma bidask_weights_10: "bidask_weights 10 = [Some (2476979795053773 / 2251799813685248), Some (6349519474638403 / 9007199254740992), Some (3680719695455887 / 9007199254740992), Some (7606079370670171 / 36028797018963968), Some (4047679665093483 / 36028797018963968), Some (4047679665093483 / 36028797018963968), Some (7606079370670171 / 36028797018963968), Some (3680719695455887 / 9007199254740992), Some (6349519474638403 / 9007199254740992), Some (2476979795053773 / 2251799813685248)]"
  by (simp add: bidask_weights_def bidask_weight_def upt_10 num_def fl_vals)

lemma curve_exponents_10: "map (curve_exponent 10) [0..<10] = [Some (- 2), Some (- (5764607523034235 / 4503599627370496)), Some (- (3242591731706757 / 4503599627370496)), Some (- (5764607523034235 / 18014398509481984)), Some (- (5764607523034235 / 72057594037927936)), Some 0, Some (- (5764607523034235 / 72057594037927936)), Some (- (5764607523034235 / 18014398509481984)), Some (- (3242591731706757 / 4503599627370496)), Some (- (5764607523034235 / 4503599627370496))]"
  by (simp add: curve_exponent_def upt_10 num_def fneg_def fl_vals)

lemma spot_normalizedX: "normalize_side [Some 0, Some 0, Some 0, Some 0, Some 0, Some (1 / 2), Some 1, Some 1, Some 1, Some 1] = Inr [0, 0, 0, 0, 0, 111111111000000000, 222222222000000000, 222222222000000000, 222222222000000000, 222222222000000000]"
  by (simp add: normalize_side_def sum_weights_def scale_weight_def BigInt_def Math_floor_def
      num_def fl_vals)

lemma spot_normalizedY: "normalize_side [Some 1, Some 1, Some 1, Some 1, Some 1, Some (1 / 2), Some 0, Some 0, Some 0, Some 0] = Inr [181818181000000000, 181818181000000000, 181818181000000000, 181818181000000000, 181818181000000000, 90909090000000000, 0, 0, 0, 0]"
  by (simp add: normalize_side_def sum_weights_def scale_weight_def BigInt_def Math_floor_def
      num_def fl_vals)

section \<open>The plan of a list of positive weights\<close>

lemma weightsX_10:
  "weightsX (deltaIds_of 10) ws 10 =
     [Some 0, Some 0, Some 0, Some 0, Some 0, fdiv (element ws 5) (Some 2),
      element ws 6, element ws 7, element ws 8, element ws 9]"
  by (simp add: weightsX_def deltaIds_of_10 upt_10 num_def)

lemma weightsY_10:
  "weightsY (deltaIds_of 10) ws 10 =
     [element ws 0, element ws 1, element ws 2, element ws 3, element ws 4,
      fdiv (element ws 5) (Some 2),
      Some 0, Some 0, Some 0, Some 0]"
  by (simp add: weightsY_def deltaIds_of_10 upt_10 num_def)

lemma finite_pos_nth:
  "finite_pos ws \<Longrightarrow> i < length ws \<Longrightarrow> \<exists>x. ws ! i = Some x \<and> 0 < x"
  by (auto simp: finite_pos_def list_all_length split: option.splits)

lemma finite_pos_nonneg: "finite_pos ws \<Longrightarrow> finite_nonneg ws"
  by (auto simp: finite_pos_def finite_nonneg_def list_all_iff split: option.splits)

lemma exact_sum_pos: "finite_pos ws \<Longrightarrow> ws \<noteq> [] \<Longrightarrow> 0 < exact_sum ws"
proof (induction ws)
  case Nil
  then show ?case by simp
next
  case (Cons w ws)
  from Cons.prems(1) obtain x where x: "w = Some x" "0 < x" "finite_pos ws"
    by (auto simp: finite_pos_def split: option.splits)
  have "0 \<le> exact_sum ws" using x(3) by (intro exact_sum_nonneg finite_pos_nonneg)
  then show ?case using x by (simp add: exact_sum_Cons)
qed

lemma plan_of_weights:
  assumes w: "weights mexp 10 s = Inr ws" and l: "length ws = 10" and p: "finite_pos ws"
  shows "\<exists>nx ny.
      normalize_side (weightsX (deltaIds_of 10) ws 10) = Inr nx
    \<and> normalize_side (weightsY (deltaIds_of 10) ws 10) = Inr ny
    \<and> (\<exists>v\<in>set nx. v \<noteq> 0) \<and> (\<exists>v\<in>set ny. v \<noteq> 0)
    \<and> getDistribution mexp s =
        Inr \<lparr>deltaIds = deltaIds_of 10, distributionX = adjust nx,
             distributionY = adjust ny, numBins = 10\<rparr>"
proof -
  obtain w0 where w0: "ws ! 0 = Some w0" "0 < w0" using finite_pos_nth[OF p, of 0] l by auto
  obtain w1 where w1: "ws ! 1 = Some w1" "0 < w1" using finite_pos_nth[OF p, of 1] l by auto
  obtain w2 where w2: "ws ! 2 = Some w2" "0 < w2" using finite_pos_nth[OF p, of 2] l by auto
  obtain w3 where w3: "ws ! 3 = Some w3" "0 < w3" using finite_pos_nth[OF p, of 3] l by auto
  obtain w4 where w4: "ws ! 4 = Some w4" "0 < w4" using finite_pos_nth[OF p, of 4] l by auto
  obtain w5 where w5: "ws ! 5 = Some w5" "0 < w5" using finite_pos_nth[OF p, of 5] l by auto
  obtain w6 where w6: "ws ! 6 = Some w6" "0 < w6" using finite_pos_nth[OF p, of 6] l by auto
  obtain w7 where w7: "ws ! 7 = Some w7" "0 < w7" using finite_pos_nth[OF p, of 7] l by auto
  obtain w8 where w8: "ws ! 8 = Some w8" "0 < w8" using finite_pos_nth[OF p, of 8] l by auto
  obtain w9 where w9: "ws ! 9 = Some w9" "0 < w9" using finite_pos_nth[OF p, of 9] l by auto
  have h: "0 < fl (w5 / 2)" using w5(2) by (intro fl_pos) simp
  have X: "weightsX (deltaIds_of 10) ws 10 =
      [Some 0, Some 0, Some 0, Some 0, Some 0, Some (fl (w5 / 2)),
       Some w6, Some w7, Some w8, Some w9]"
    using w5 w6 w7 w8 w9 l by (simp add: weightsX_10 element_def)
  have Y: "weightsY (deltaIds_of 10) ws 10 =
      [Some w0, Some w1, Some w2, Some w3, Some w4, Some (fl (w5 / 2)),
       Some 0, Some 0, Some 0, Some 0]"
    using w0 w1 w2 w3 w4 w5 l by (simp add: weightsY_10 element_def)
  have Xn: "finite_nonneg (weightsX (deltaIds_of 10) ws 10)"
    unfolding X using h w6 w7 w8 w9 by (simp add: finite_nonneg_def)
  have Xs: "0 < exact_sum (weightsX (deltaIds_of 10) ws 10)"
    unfolding X using h w6 w7 w8 w9 by (simp add: exact_sum_def)
  have Xl: "length (weightsX (deltaIds_of 10) ws 10) \<le> 10" unfolding X by simp
  have Yn: "finite_nonneg (weightsY (deltaIds_of 10) ws 10)"
    unfolding Y using h w0 w1 w2 w3 w4 by (simp add: finite_nonneg_def)
  have Ys: "0 < exact_sum (weightsY (deltaIds_of 10) ws 10)"
    unfolding Y using h w0 w1 w2 w3 w4 by (simp add: exact_sum_def)
  have Yl: "length (weightsY (deltaIds_of 10) ws 10) \<le> 10" unfolding Y by simp
  from normalize_side_total[OF Xn Xs Xl] obtain nx where
    nx: "normalize_side (weightsX (deltaIds_of 10) ws 10) = Inr nx" "\<exists>v\<in>set nx. v \<noteq> 0"
    by blast
  from normalize_side_total[OF Yn Ys Yl] obtain ny where
    ny: "normalize_side (weightsY (deltaIds_of 10) ws 10) = Inr ny" "\<exists>v\<in>set ny. v \<noteq> 0"
    by blast
  have "ws \<noteq> []" using l by auto
  then have "0 < exact_sum ws" using p by (intro exact_sum_pos)
  then obtain nw where nw: "normalizedWeights ws 5 = Inr nw"
    using normalizedWeights_total[OF finite_pos_nonneg[OF p], of 5] l by auto
  have "getDistribution mexp s =
        Inr \<lparr>deltaIds = deltaIds_of 10, distributionX = adjust nx,
             distributionY = adjust ny, numBins = 10\<rparr>"
    by (simp add: getDistribution_def getDistribution_body_def normalize_plan_def Let_def
        w nw nx(1) ny(1))
  then show ?thesis using nx ny by blast
qed

section \<open>The weights of the three strategies\<close>

lemma replicate_10: "replicate 10 x = [x, x, x, x, x, x, x, x, x, x]"
  by (simp add: numeral_eq_Suc)

lemma spot_weights_10: "weights mexp 10 Spot = Inr (replicate 10 (Some 1))"
  by (simp add: num_def)

lemma curve_weights_10:
  "curve_weights mexp 10 = map (map_option mexp) (map (curve_exponent 10) [0..<10])"
  by (simp add: curve_weights_def)

lemma Math_exp_ok_pos:
  assumes "Math_exp_ok mexp"
  shows "finite_pos (curve_weights mexp 10)"
proof -
  have "0 < mexp t" if "\<bar>mexp t - exp t\<bar> \<le> exp t / 100" for t
  proof -
    have "0 < exp t" by simp
    then show ?thesis using that by linarith
  qed
  then show ?thesis
    using assms curve_exponents_10
    unfolding curve_weights_10 by (auto simp: Math_exp_ok_def finite_pos_def upt_10)
qed

lemma weights_10:
  assumes "Math_exp_ok mexp"
  shows "\<exists>ws. weights mexp 10 s = Inr ws \<and> length ws = 10 \<and> finite_pos ws"
proof (cases s)
  case Spot
  show ?thesis unfolding Spot spot_weights_10 by (simp add: replicate_10 finite_pos_def)
next
  case Curve
  show ?thesis unfolding Curve using Math_exp_ok_pos[OF assms]
    by (simp add: curve_weights_def)
next
  case Bidask
  show ?thesis unfolding Bidask by (simp add: bidask_weights_10 finite_pos_def)
qed

section \<open>What a returned plan is made of\<close>

lemma getDistribution_body_InrD:
  assumes "getDistribution_body mexp n s = Inr p"
  shows "\<exists>ws nx ny.
      weights mexp n s = Inr ws
    \<and> normalize_side (weightsX (deltaIds_of n) ws n) = Inr nx
    \<and> normalize_side (weightsY (deltaIds_of n) ws n) = Inr ny
    \<and> p = \<lparr>deltaIds = deltaIds_of n, distributionX = adjust nx,
             distributionY = adjust ny, numBins = n\<rparr>"
  using assms
  by (auto simp: getDistribution_body_def normalize_plan_def Let_def split: sum.splits if_splits)

lemma length_deltaIds_of: "length (deltaIds_of n) = nat n"
  by (simp add: deltaIds_of_def)

lemma nth_deltaIds_of: "i < nat n \<Longrightarrow> deltaIds_of n ! i = int i - n div 2"
  by (simp add: deltaIds_of_def)

lemma length_weightsX: "length (weightsX ds ws n) = nat n"
  by (simp add: weightsX_def)

lemma length_weightsY: "length (weightsY ds ws n) = nat n"
  by (simp add: weightsY_def)

lemma less_10_cases:
  "i < 10 \<Longrightarrow> i = 0 \<or> i = 1 \<or> i = 2 \<or> i = 3 \<or> i = 4 \<or> i = 5 \<or> i = 6 \<or> i = 7
     \<or> i = 8 \<or> i = (9::nat)"
  by arith

lemma sideX_zero:
  assumes "normalize_side (weightsX (deltaIds_of 10) ws 10) = Inr nx" "i < 5"
  shows "nx ! i = 0" "adjust nx ! i = 0"
proof -
  have l: "length nx = 10" using normalize_side_Inr(1)[OF assms(1)] by (simp add: length_weightsX)
  have "i = 0 \<or> i = 1 \<or> i = 2 \<or> i = 3 \<or> i = 4" using assms(2) by arith
  then have "weightsX (deltaIds_of 10) ws 10 ! i = Some 0"
    unfolding weightsX_10 by auto
  then show z: "nx ! i = 0"
    using normalize_side_Inr(2)[OF assms(1), of i] assms(2) by (simp add: length_weightsX)
  show "adjust nx ! i = 0" using z l assms(2) by (intro adjust_keeps_zero) simp_all
qed

lemma sideY_zero:
  assumes "normalize_side (weightsY (deltaIds_of 10) ws 10) = Inr ny" "5 < i" "i < 10"
  shows "ny ! i = 0" "adjust ny ! i = 0"
proof -
  have l: "length ny = 10" using normalize_side_Inr(1)[OF assms(1)] by (simp add: length_weightsY)
  have "i = 6 \<or> i = 7 \<or> i = 8 \<or> i = 9" using assms(2,3) by arith
  then have "weightsY (deltaIds_of 10) ws 10 ! i = Some 0"
    unfolding weightsY_10 by auto
  then show z: "ny ! i = 0"
    using normalize_side_Inr(2)[OF assms(1), of i] assms(3) by (simp add: length_weightsY)
  show "adjust ny ! i = 0" using z l assms(3) by (intro adjust_keeps_zero) simp_all
qed

lemma plan_10:
  assumes "Math_exp_ok mexp"
  shows "\<exists>ws nx ny.
      weights mexp 10 s = Inr ws \<and> length ws = 10 \<and> finite_pos ws
    \<and> normalize_side (weightsX (deltaIds_of 10) ws 10) = Inr nx
    \<and> normalize_side (weightsY (deltaIds_of 10) ws 10) = Inr ny
    \<and> (\<exists>v\<in>set nx. v \<noteq> 0) \<and> (\<exists>v\<in>set ny. v \<noteq> 0)
    \<and> getDistribution mexp s =
        Inr \<lparr>deltaIds = deltaIds_of 10, distributionX = adjust nx,
             distributionY = adjust ny, numBins = 10\<rparr>"
proof -
  from weights_10[OF assms, of s] obtain ws where
    ws: "weights mexp 10 s = Inr ws" "length ws = 10" "finite_pos ws" by blast
  from plan_of_weights[OF ws] show ?thesis using ws by blast
qed

lemma Math_exp_ok_exp: "Math_exp_ok exp"
  using curve_exponents_10 by (auto simp: Math_exp_ok_def upt_10)

section \<open>The plan of the spot strategy\<close>

lemma spot_weightsX:
  "weightsX (deltaIds_of 10) (replicate 10 (Some 1)) 10 = [Some 0, Some 0, Some 0, Some 0, Some 0, Some (1 / 2), Some 1, Some 1, Some 1, Some 1]"
  by (simp add: weightsX_10 element_def replicate_10 fl_vals)

lemma spot_weightsY:
  "weightsY (deltaIds_of 10) (replicate 10 (Some 1)) 10 = [Some 1, Some 1, Some 1, Some 1, Some 1, Some (1 / 2), Some 0, Some 0, Some 0, Some 0]"
  by (simp add: weightsY_10 element_def replicate_10 fl_vals)

lemma spot_adjustX: "adjust [0, 0, 0, 0, 0, 111111111000000000, 222222222000000000, 222222222000000000, 222222222000000000, 222222222000000000] = [0, 0, 0, 0, 0, 111111112000000000, 222222222000000000, 222222222000000000, 222222222000000000, 222222222000000000]"
  by (simp add: adjust_def PRECISION_BI_def)

lemma spot_adjustY: "adjust [181818181000000000, 181818181000000000, 181818181000000000, 181818181000000000, 181818181000000000, 90909090000000000, 0, 0, 0, 0] = [181818186000000000, 181818181000000000, 181818181000000000, 181818181000000000, 181818181000000000, 90909090000000000, 0, 0, 0, 0]"
  by (simp add: adjust_def PRECISION_BI_def)

lemma spot_plan:
  "getDistribution mexp Spot =
     Inr \<lparr>deltaIds = [- 5, - 4, - 3, - 2, - 1, 0, 1, 2, 3, 4],
          distributionX = [0, 0, 0, 0, 0, 111111112000000000, 222222222000000000, 222222222000000000, 222222222000000000, 222222222000000000],
          distributionY = [181818186000000000, 181818181000000000, 181818181000000000, 181818181000000000, 181818181000000000, 90909090000000000, 0, 0, 0, 0],
          numBins = 10\<rparr>"
proof -
  have "finite_pos (replicate 10 (Some 1))" by (simp add: replicate_10 finite_pos_def)
  from plan_of_weights[OF spot_weights_10 _ this, of mexp] obtain nx ny where
    a: "normalize_side (weightsX (deltaIds_of 10) (replicate 10 (Some 1)) 10) = Inr nx" and
    b: "normalize_side (weightsY (deltaIds_of 10) (replicate 10 (Some 1)) 10) = Inr ny" and
    c: "getDistribution mexp Spot =
        Inr \<lparr>deltaIds = deltaIds_of 10, distributionX = adjust nx,
             distributionY = adjust ny, numBins = 10\<rparr>" by auto
  have nx: "nx = [0, 0, 0, 0, 0, 111111111000000000, 222222222000000000, 222222222000000000, 222222222000000000, 222222222000000000]"
    using a unfolding spot_weightsX spot_normalizedX by simp
  have ny: "ny = [181818181000000000, 181818181000000000, 181818181000000000, 181818181000000000, 181818181000000000, 90909090000000000, 0, 0, 0, 0]"
    using b unfolding spot_weightsY spot_normalizedY by simp
  show ?thesis unfolding c nx ny spot_adjustX spot_adjustY deltaIds_of_10 by simp
qed

section \<open>Claims about the plan\<close>

text \<open>
  C1.  For every strategy, each side of the distribution that \<open>getDistribution\<close> returns
  sums to exactly \<open>10 ^ 18\<close> whenever it has a non-zero entry.  This holds of every plan
  the planner returns, whatever \<open>Math.exp\<close> computes, and the planner does return a plan
  when \<open>Math.exp\<close> is within a hundredth of the exponential.
\<close>

theorem distribution_sums_to_precision:
  "(\<forall>p. getDistribution mexp s = Inr p \<longrightarrow>
      ((\<exists>v\<in>set (distributionX p). v \<noteq> 0) \<longrightarrow> sum_list (distributionX p) = 10 ^ 18)
    \<and> ((\<exists>v\<in>set (distributionY p). v \<noteq> 0) \<longrightarrow> sum_list (distributionY p) = 10 ^ 18))
   \<and> (Math_exp_ok mexp \<longrightarrow> (\<exists>p. getDistribution mexp s = Inr p))"
proof (intro conjI allI impI)
  fix p assume p: "getDistribution mexp s = Inr p"
  then obtain nx ny where
    X: "distributionX p = adjust nx" and Y: "distributionY p = adjust ny"
    using getDistribution_body_InrD[of mexp 10 s p] by (auto simp: getDistribution_def)
  { assume "\<exists>v\<in>set (distributionX p). v \<noteq> 0"
    then show "sum_list (distributionX p) = 10 ^ 18"
      unfolding X using adjust_nonzero_sum[of nx] by (simp add: PRECISION_BI_def) }
  { assume "\<exists>v\<in>set (distributionY p). v \<noteq> 0"
    then show "sum_list (distributionY p) = 10 ^ 18"
      unfolding Y using adjust_nonzero_sum[of ny] by (simp add: PRECISION_BI_def) }
next
  assume "Math_exp_ok mexp"
  from plan_10[OF this, of s] show "\<exists>p. getDistribution mexp s = Inr p" by blast
qed

theorem distribution_sums_to_precision_witness:
  "Math_exp_ok exp
   \<and> getDistribution exp Spot =
       Inr \<lparr>deltaIds = [- 5, - 4, - 3, - 2, - 1, 0, 1, 2, 3, 4],
            distributionX =
              [0, 0, 0, 0, 0, 111111112000000000, 222222222000000000,
               222222222000000000, 222222222000000000, 222222222000000000],
            distributionY =
              [181818186000000000, 181818181000000000, 181818181000000000,
               181818181000000000, 181818181000000000, 90909090000000000, 0, 0, 0, 0],
            numBins = 10\<rparr>
   \<and> (111111112000000000::int) \<noteq> 0
   \<and> sum_list [0, 0, 0, 0, 0, 111111112000000000, 222222222000000000,
               222222222000000000, 222222222000000000, 222222222000000000] = (10::int) ^ 18
   \<and> (181818186000000000::int) \<noteq> 0
   \<and> sum_list [181818186000000000, 181818181000000000, 181818181000000000,
               181818181000000000, 181818181000000000, 90909090000000000, 0, 0, 0, 0]
       = (10::int) ^ 18"
  using distribution_sums_to_precision[of exp Spot] Math_exp_ok_exp spot_plan[of exp]
  by simp

text \<open>
  C2.  In every plan the planner returns, a bin below the active one (negative
  \<open>deltaId\<close>) has no X share and a bin above it (positive \<open>deltaId\<close>) has no Y share, so
  only the bin with \<open>deltaId = 0\<close> can have both shares positive; that bin is the one at
  index 5 and no other.
\<close>

theorem one_side_per_bin:
  "(\<forall>p. getDistribution mexp s = Inr p \<longrightarrow>
      length (deltaIds p) = 10
    \<and> (\<forall>i<10. (deltaIds p ! i < 0 \<longrightarrow> distributionX p ! i = 0)
             \<and> (0 < deltaIds p ! i \<longrightarrow> distributionY p ! i = 0)
             \<and> (0 < distributionX p ! i \<and> 0 < distributionY p ! i \<longrightarrow> deltaIds p ! i = 0)
             \<and> (deltaIds p ! i = 0 \<longleftrightarrow> i = 5)))
   \<and> (Math_exp_ok mexp \<longrightarrow> (\<exists>p. getDistribution mexp s = Inr p))"
proof -
  have A: "length (deltaIds p) = 10
    \<and> (\<forall>i<10. (deltaIds p ! i < 0 \<longrightarrow> distributionX p ! i = 0)
             \<and> (0 < deltaIds p ! i \<longrightarrow> distributionY p ! i = 0)
             \<and> (0 < distributionX p ! i \<and> 0 < distributionY p ! i \<longrightarrow> deltaIds p ! i = 0)
             \<and> (deltaIds p ! i = 0 \<longleftrightarrow> i = 5))"
    if p: "getDistribution mexp s = Inr p" for p
  proof -
    from p obtain ws nx ny where
      nx: "normalize_side (weightsX (deltaIds_of 10) ws 10) = Inr nx" and
      ny: "normalize_side (weightsY (deltaIds_of 10) ws 10) = Inr ny" and
      D: "deltaIds p = deltaIds_of 10" and
      X: "distributionX p = adjust nx" and Y: "distributionY p = adjust ny"
      using getDistribution_body_InrD[of mexp 10 s p] by (auto simp: getDistribution_def)
    have l: "length (deltaIds p) = 10" by (simp add: D length_deltaIds_of)
    have "(deltaIds p ! i < 0 \<longrightarrow> distributionX p ! i = 0)
        \<and> (0 < deltaIds p ! i \<longrightarrow> distributionY p ! i = 0)
        \<and> (0 < distributionX p ! i \<and> 0 < distributionY p ! i \<longrightarrow> deltaIds p ! i = 0)
        \<and> (deltaIds p ! i = 0 \<longleftrightarrow> i = 5)" if i: "i < 10" for i
    proof -
      have d: "deltaIds p ! i = int i - 5" using i by (simp add: D nth_deltaIds_of)
      consider "i < 5" | "i = 5" | "5 < i" by linarith
      then show ?thesis
      proof cases
        case 1
        then show ?thesis using sideX_zero(2)[OF nx, of i] by (simp add: d X)
      next
        case 2
        then show ?thesis using d by simp
      next
        case 3
        then show ?thesis using sideY_zero(2)[OF ny, of i] i by (simp add: d Y)
      qed
    qed
    then show ?thesis using l by blast
  qed
  have B: "\<exists>p. getDistribution mexp s = Inr p" if "Math_exp_ok mexp"
    using plan_10[OF that, of s] by blast
  show ?thesis using A B by blast
qed

theorem one_side_per_bin_witness:
  "Math_exp_ok exp
   \<and> getDistribution exp Spot =
       Inr \<lparr>deltaIds = [- 5, - 4, - 3, - 2, - 1, 0, 1, 2, 3, 4],
            distributionX =
              [0, 0, 0, 0, 0, 111111112000000000, 222222222000000000,
               222222222000000000, 222222222000000000, 222222222000000000],
            distributionY =
              [181818186000000000, 181818181000000000, 181818181000000000,
               181818181000000000, 181818181000000000, 90909090000000000, 0, 0, 0, 0],
            numBins = 10\<rparr>
   \<and> (1::nat) < 10 \<and> [- 5, - 4, - 3, - 2, - 1, 0, 1, 2, 3, 4] ! 1 < (0::int)
   \<and> [0, 0, 0, 0, 0, 111111112000000000, 222222222000000000,
       222222222000000000, 222222222000000000, 222222222000000000] ! 1 = (0::int)
   \<and> (7::nat) < 10 \<and> (0::int) < [- 5, - 4, - 3, - 2, - 1, 0, 1, 2, 3, 4] ! 7
   \<and> [181818186000000000, 181818181000000000, 181818181000000000,
       181818181000000000, 181818181000000000, 90909090000000000, 0, 0, 0, 0] ! 7 = (0::int)
   \<and> (5::nat) < 10
   \<and> (0::int) < [0, 0, 0, 0, 0, 111111112000000000, 222222222000000000,
       222222222000000000, 222222222000000000, 222222222000000000] ! 5
   \<and> (0::int) < [181818186000000000, 181818181000000000, 181818181000000000,
       181818181000000000, 181818181000000000, 90909090000000000, 0, 0, 0, 0] ! 5
   \<and> [- 5, - 4, - 3, - 2, - 1, 0, 1, 2, 3, 4] ! 5 = (0::int)"
  using one_side_per_bin[of exp Spot] Math_exp_ok_exp spot_plan[of exp]
  by simp

section \<open>The submitted distributions\<close>

lemma list_10_nth:
  assumes "length xs = 10"
  shows "xs = [xs ! 0, xs ! 1, xs ! 2, xs ! 3, xs ! 4, xs ! 5, xs ! 6, xs ! 7, xs ! 8, xs ! 9]"
proof (rule nth_equalityI)
  show "length xs
    = length [xs ! 0, xs ! 1, xs ! 2, xs ! 3, xs ! 4, xs ! 5, xs ! 6, xs ! 7, xs ! 8, xs ! 9]"
    using assms by simp
  fix i assume "i < length xs"
  then have "i < 10" using assms by simp
  then show "xs ! i
    = [xs ! 0, xs ! 1, xs ! 2, xs ! 3, xs ! 4, xs ! 5, xs ! 6, xs ! 7, xs ! 8, xs ! 9] ! i"
    using less_10_cases[of i] by auto
qed

lemma finalDistributions_10:
  "finalDistributions
     \<lparr>deltaIds = deltaIds_of 10,
      distributionX = [x0, x1, x2, x3, x4, x5, x6, x7, x8, x9],
      distributionY = [y0, y1, y2, y3, y4, y5, y6, y7, y8, y9],
      numBins = n\<rparr>
   = Inr ([0, 0, 0, 0, 0, x5 + y5, x6 + y6, x7 + y7, x8 + y8, x9 + y9],
          [x0 + y0, x1 + y1, x2 + y2, x3 + y3, x4 + y4, 0, 0, 0, 0, 0])"
  by (simp add: finalDistributions_def Let_def deltaIds_of_10 upt_10)

text \<open>
  C3.  \<open>handleAddLiquidity\<close> submits, for each bin, the sum of the planner's two shares:
  on the X side when \<open>deltaId \<ge> 0\<close>, on the Y side when \<open>deltaId < 0\<close>.  For every
  strategy the submitted Y entry of the active bin is therefore zero, the submitted X
  side sums to \<open>10 ^ 18\<close> plus the planner's Y share of the active bin, and the submitted
  Y side to \<open>10 ^ 18\<close> minus that share (\<open>Math.exp\<close> being within a hundredth of the
  exponential).
\<close>

theorem submitted_distributions:
  assumes "Math_exp_ok mexp"
  shows "\<exists>p fx fy. getDistribution mexp s = Inr p \<and> finalDistributions p = Inr (fx, fy)
     \<and> (\<forall>i<10. fx ! i = (if deltaIds p ! i < 0 then 0
                          else distributionX p ! i + distributionY p ! i)
             \<and> fy ! i = (if deltaIds p ! i < 0
                          then distributionX p ! i + distributionY p ! i else 0))
     \<and> deltaIds p ! 5 = 0 \<and> fy ! 5 = 0
     \<and> sum_list fx = 10 ^ 18 + distributionY p ! 5
     \<and> sum_list fy = 10 ^ 18 - distributionY p ! 5"
proof -
  from plan_10[OF assms, of s] obtain ws nx ny where
    nx: "normalize_side (weightsX (deltaIds_of 10) ws 10) = Inr nx" and
    ny: "normalize_side (weightsY (deltaIds_of 10) ws 10) = Inr ny" and
    nzx: "\<exists>v\<in>set nx. v \<noteq> 0" and nzy: "\<exists>v\<in>set ny. v \<noteq> 0" and
    p: "getDistribution mexp s =
        Inr \<lparr>deltaIds = deltaIds_of 10, distributionX = adjust nx,
             distributionY = adjust ny, numBins = 10\<rparr>" by blast
  have lx: "length (adjust nx) = 10"
    using normalize_side_Inr(1)[OF nx] by (simp add: length_adjust length_weightsX)
  have ly: "length (adjust ny) = 10"
    using normalize_side_Inr(1)[OF ny] by (simp add: length_adjust length_weightsY)
  define x where "x = (\<lambda>i. adjust nx ! i)"
  define y where "y = (\<lambda>i. adjust ny ! i)"
  have X: "adjust nx = [x 0, x 1, x 2, x 3, x 4, x 5, x 6, x 7, x 8, x 9]"
    unfolding x_def by (rule list_10_nth[OF lx])
  have Y: "adjust ny = [y 0, y 1, y 2, y 3, y 4, y 5, y 6, y 7, y 8, y 9]"
    unfolding y_def by (rule list_10_nth[OF ly])
  have zx: "x 0 = 0" "x 1 = 0" "x 2 = 0" "x 3 = 0" "x 4 = 0"
    unfolding x_def by (rule sideX_zero(2)[OF nx], simp)+
  have zy: "y 6 = 0" "y 7 = 0" "y 8 = 0" "y 9 = 0"
    unfolding y_def by (rule sideY_zero(2)[OF ny], simp, simp)+
  have "sum_list (adjust nx) = 10 ^ 18"
    using adjust_sum[OF nzx] by (simp add: PRECISION_BI_def)
  then have sx: "x 5 + x 6 + x 7 + x 8 + x 9 = 10 ^ 18" unfolding X using zx by simp
  have "sum_list (adjust ny) = 10 ^ 18"
    using adjust_sum[OF nzy] by (simp add: PRECISION_BI_def)
  then have sy: "y 0 + y 1 + y 2 + y 3 + y 4 + y 5 = 10 ^ 18" unfolding Y using zy by simp
  define fx where "fx = [0, 0, 0, 0, 0, x 5 + y 5, x 6 + y 6, x 7 + y 7, x 8 + y 8, x 9 + y 9]"
  define fy where "fy = [x 0 + y 0, x 1 + y 1, x 2 + y 2, x 3 + y 3, x 4 + y 4, 0, 0, 0, 0, 0]"
  define P where "P = \<lparr>deltaIds = deltaIds_of 10, distributionX = adjust nx,
             distributionY = adjust ny, numBins = 10\<rparr>"
  have f: "finalDistributions P = Inr (fx, fy)"
    unfolding P_def X Y fx_def fy_def by (rule finalDistributions_10)
  have PX: "distributionX P = [x 0, x 1, x 2, x 3, x 4, x 5, x 6, x 7, x 8, x 9]"
    and PY: "distributionY P = [y 0, y 1, y 2, y 3, y 4, y 5, y 6, y 7, y 8, y 9]"
    and PD: "deltaIds P = [- 5, - 4, - 3, - 2, - 1, 0, 1, 2, 3, 4]"
    by (simp_all add: P_def X Y deltaIds_of_10)
  have each: "\<forall>i<10. fx ! i = (if deltaIds P ! i < 0 then 0
                          else distributionX P ! i + distributionY P ! i)
             \<and> fy ! i = (if deltaIds P ! i < 0
                          then distributionX P ! i + distributionY P ! i else 0)"
  proof (intro allI impI)
    fix i :: nat assume "i < 10"
    then show "fx ! i = (if deltaIds P ! i < 0 then 0
                          else distributionX P ! i + distributionY P ! i)
             \<and> fy ! i = (if deltaIds P ! i < 0
                          then distributionX P ! i + distributionY P ! i else 0)"
      using less_10_cases[of i] unfolding PX PY PD fx_def fy_def by auto
  qed
  have a: "deltaIds P ! 5 = 0" "fy ! 5 = 0" by (simp_all add: PD fy_def)
  have b: "sum_list fx = 10 ^ 18 + distributionY P ! 5"
    using sx zy by (simp add: fx_def PY)
  have c: "sum_list fy = 10 ^ 18 - distributionY P ! 5"
    using sy zx by (simp add: fy_def PY)
  show ?thesis using p[folded P_def] f each a b c by blast
qed

theorem submitted_distributions_witness:
  "Math_exp_ok exp
   \<and> getDistribution exp Spot =
       Inr \<lparr>deltaIds = [- 5, - 4, - 3, - 2, - 1, 0, 1, 2, 3, 4],
            distributionX =
              [0, 0, 0, 0, 0, 111111112000000000, 222222222000000000,
               222222222000000000, 222222222000000000, 222222222000000000],
            distributionY =
              [181818186000000000, 181818181000000000, 181818181000000000,
               181818181000000000, 181818181000000000, 90909090000000000, 0, 0, 0, 0],
            numBins = 10\<rparr>
   \<and> finalDistributions
        \<lparr>deltaIds = [- 5, - 4, - 3, - 2, - 1, 0, 1, 2, 3, 4],
         distributionX =
           [0, 0, 0, 0, 0, 111111112000000000, 222222222000000000,
            222222222000000000, 222222222000000000, 222222222000000000],
         distributionY =
           [181818186000000000, 181818181000000000, 181818181000000000,
            181818181000000000, 181818181000000000, 90909090000000000, 0, 0, 0, 0],
         numBins = 10\<rparr>
      = Inr ([0, 0, 0, 0, 0, 202020202000000000, 222222222000000000,
              222222222000000000, 222222222000000000, 222222222000000000],
             [181818186000000000, 181818181000000000, 181818181000000000,
              181818181000000000, 181818181000000000, 0, 0, 0, 0, 0])
   \<and> sum_list [0, 0, 0, 0, 0, 202020202000000000, 222222222000000000,
               222222222000000000, 222222222000000000, 222222222000000000]
      = (10::int) ^ 18 + 90909090000000000
   \<and> sum_list [181818186000000000, 181818181000000000, 181818181000000000,
               181818181000000000, 181818181000000000, 0, 0, 0, 0, 0]
      = (10::int) ^ 18 - 90909090000000000"
  using submitted_distributions[OF Math_exp_ok_exp, of Spot] Math_exp_ok_exp spot_plan[of exp]
    finalDistributions_10[of 0 0 0 0 0 111111112000000000 222222222000000000
      222222222000000000 222222222000000000 222222222000000000
      181818186000000000 181818181000000000 181818181000000000
      181818181000000000 181818181000000000 90909090000000000 0 0 0 0 10]
  by (simp add: deltaIds_of_10)

section \<open>Where the remainder goes\<close>

lemma spot_sideX:
  "normalize_side (weightsX (deltaIds_of 10) (replicate 10 (Some 1)) 10) = Inr
     [0, 0, 0, 0, 0, 111111111000000000, 222222222000000000,
        222222222000000000, 222222222000000000, 222222222000000000]"
  unfolding spot_weightsX by (rule spot_normalizedX)

lemma spot_sideY:
  "normalize_side (weightsY (deltaIds_of 10) (replicate 10 (Some 1)) 10) = Inr
     [181818181000000000, 181818181000000000, 181818181000000000,
        181818181000000000, 181818181000000000, 90909090000000000, 0, 0, 0, 0]"
  unfolding spot_weightsY by (rule spot_normalizedY)

text \<open>
  C4, as stated, fails.  With the spot strategy the Y entry of the active bin (index 5)
  is non-zero before the adjustment, yet it is left as it is: the remainder
  \<open>5000000000\<close> of the Y side is added at index 0.
\<close>

theorem remainder_not_at_active_bin:
  "weights exp 10 Spot = Inr (replicate 10 (Some 1))
   \<and> normalize_side (weightsY (deltaIds_of 10) (replicate 10 (Some 1)) 10) = Inr
       [181818181000000000, 181818181000000000, 181818181000000000,
        181818181000000000, 181818181000000000, 90909090000000000, 0, 0, 0, 0]
   \<and> [181818181000000000, 181818181000000000, 181818181000000000,
        181818181000000000, 181818181000000000, 90909090000000000, 0, 0, 0, 0] ! 5 \<noteq> (0::int)
   \<and> (10::int) ^ 18 - sum_list [181818181000000000, 181818181000000000, 181818181000000000,
        181818181000000000, 181818181000000000, 90909090000000000, 0, 0, 0, 0] = 5000000000
   \<and> getDistribution exp Spot =
       Inr \<lparr>deltaIds = [- 5, - 4, - 3, - 2, - 1, 0, 1, 2, 3, 4],
            distributionX =
              [0, 0, 0, 0, 0, 111111112000000000, 222222222000000000,
               222222222000000000, 222222222000000000, 222222222000000000],
            distributionY =
              [181818186000000000, 181818181000000000, 181818181000000000,
               181818181000000000, 181818181000000000, 90909090000000000, 0, 0, 0, 0],
            numBins = 10\<rparr>
   \<and> [181818186000000000, 181818181000000000, 181818181000000000,
        181818181000000000, 181818181000000000, 90909090000000000, 0, 0, 0, 0] ! 5 = [181818181000000000, 181818181000000000, 181818181000000000,
        181818181000000000, 181818181000000000, 90909090000000000, 0, 0, 0, 0] ! 5
   \<and> [181818186000000000, 181818181000000000, 181818181000000000,
        181818181000000000, 181818181000000000, 90909090000000000, 0, 0, 0, 0] ! 0 = [181818181000000000, 181818181000000000, 181818181000000000,
        181818181000000000, 181818181000000000, 90909090000000000, 0, 0, 0, 0] ! 0 + (5000000000::int)"
  using spot_weights_10[of exp] spot_sideY spot_plan[of exp] by simp

text \<open>
  C4, amended.  On each side the remainder is added to exactly one entry, the first
  non-zero entry of that side in bin order; the active bin is not preferred.  On the X
  side that entry is at the active bin or above it, on the Y side at the active bin or
  below it (\<open>Math.exp\<close> being within a hundredth of the exponential).
\<close>

theorem first_nonzero_absorbs:
  assumes "Math_exp_ok mexp"
  shows "\<exists>ws nx ny p kx ky.
      weights mexp 10 s = Inr ws
    \<and> normalize_side (weightsX (deltaIds_of 10) ws 10) = Inr nx
    \<and> normalize_side (weightsY (deltaIds_of 10) ws 10) = Inr ny
    \<and> getDistribution mexp s = Inr p
    \<and> kx < 10 \<and> nx ! kx \<noteq> 0 \<and> (\<forall>j<kx. nx ! j = 0)
    \<and> distributionX p = nx[kx := nx ! kx + (10 ^ 18 - sum_list nx)]
    \<and> ky < 10 \<and> ny ! ky \<noteq> 0 \<and> (\<forall>j<ky. ny ! j = 0)
    \<and> distributionY p = ny[ky := ny ! ky + (10 ^ 18 - sum_list ny)]
    \<and> 5 \<le> kx \<and> ky \<le> 5"
proof -
  from plan_10[OF assms, of s] obtain ws nx ny where
    ws: "weights mexp 10 s = Inr ws" and
    nx: "normalize_side (weightsX (deltaIds_of 10) ws 10) = Inr nx" and
    ny: "normalize_side (weightsY (deltaIds_of 10) ws 10) = Inr ny" and
    nzx: "\<exists>v\<in>set nx. v \<noteq> 0" and nzy: "\<exists>v\<in>set ny. v \<noteq> 0" and
    p: "getDistribution mexp s =
        Inr \<lparr>deltaIds = deltaIds_of 10, distributionX = adjust nx,
             distributionY = adjust ny, numBins = 10\<rparr>" by blast
  have lx: "length nx = 10" using normalize_side_Inr(1)[OF nx] by (simp add: length_weightsX)
  have ly: "length ny = 10" using normalize_side_Inr(1)[OF ny] by (simp add: length_weightsY)
  from nzx obtain kx where kx: "findIndex (\<lambda>v. v \<noteq> 0) nx = Some kx"
    using findIndex_None[of "\<lambda>v. v \<noteq> 0" nx] by (cases "findIndex (\<lambda>v. v \<noteq> 0) nx") auto
  from nzy obtain ky where ky: "findIndex (\<lambda>v. v \<noteq> 0) ny = Some ky"
    using findIndex_None[of "\<lambda>v. v \<noteq> 0" ny] by (cases "findIndex (\<lambda>v. v \<noteq> 0) ny") auto
  note fx = findIndex_Some[OF kx] and fy = findIndex_Some[OF ky]
  have ax: "adjust nx = nx[kx := nx ! kx + (10 ^ 18 - sum_list nx)]"
    by (simp add: adjust_def kx PRECISION_BI_def)
  have ay: "adjust ny = ny[ky := ny ! ky + (10 ^ 18 - sum_list ny)]"
    by (simp add: adjust_def ky PRECISION_BI_def)
  have "\<not> kx < 5" using sideX_zero(1)[OF nx, of kx] fx by auto
  then have k5: "5 \<le> kx" by simp
  have "\<not> 5 < ky" using sideY_zero(1)[OF ny, of ky] fy ly by auto
  then have k5': "ky \<le> 5" by simp
  define P where "P = \<lparr>deltaIds = deltaIds_of 10, distributionX = adjust nx,
             distributionY = adjust ny, numBins = 10\<rparr>"
  have "distributionX P = nx[kx := nx ! kx + (10 ^ 18 - sum_list nx)]"
       "distributionY P = ny[ky := ny ! ky + (10 ^ 18 - sum_list ny)]"
    using ax ay by (simp_all add: P_def)
  moreover have "kx < 10" "ky < 10" "nx ! kx \<noteq> 0" "ny ! ky \<noteq> 0"
    "\<forall>j<kx. nx ! j = 0" "\<forall>j<ky. ny ! j = 0"
    using fx fy lx ly by simp_all
  ultimately show ?thesis using ws nx ny p[folded P_def] k5 k5' by blast
qed

theorem first_nonzero_absorbs_witness:
  "Math_exp_ok exp
   \<and> normalize_side (weightsX (deltaIds_of 10) (replicate 10 (Some 1)) 10) = Inr
       [0, 0, 0, 0, 0, 111111111000000000, 222222222000000000,
        222222222000000000, 222222222000000000, 222222222000000000]
   \<and> normalize_side (weightsY (deltaIds_of 10) (replicate 10 (Some 1)) 10) = Inr
       [181818181000000000, 181818181000000000, 181818181000000000,
        181818181000000000, 181818181000000000, 90909090000000000, 0, 0, 0, 0]
   \<and> getDistribution exp Spot =
       Inr \<lparr>deltaIds = [- 5, - 4, - 3, - 2, - 1, 0, 1, 2, 3, 4],
            distributionX =
              [0, 0, 0, 0, 0, 111111112000000000, 222222222000000000,
               222222222000000000, 222222222000000000, 222222222000000000],
            distributionY =
              [181818186000000000, 181818181000000000, 181818181000000000,
               181818181000000000, 181818181000000000, 90909090000000000, 0, 0, 0, 0],
            numBins = 10\<rparr>
   \<and> [0, 0, 0, 0, 0, 111111112000000000, 222222222000000000,
        222222222000000000, 222222222000000000, 222222222000000000]
     = [0, 0, 0, 0, 0, 111111111000000000, 222222222000000000,
        222222222000000000, 222222222000000000, 222222222000000000]
       [5 := 111111111000000000 + ((10::int) ^ 18 - sum_list [0, 0, 0, 0, 0, 111111111000000000, 222222222000000000,
        222222222000000000, 222222222000000000, 222222222000000000])]
   \<and> [181818186000000000, 181818181000000000, 181818181000000000,
        181818181000000000, 181818181000000000, 90909090000000000, 0, 0, 0, 0]
     = [181818181000000000, 181818181000000000, 181818181000000000,
        181818181000000000, 181818181000000000, 90909090000000000, 0, 0, 0, 0]
       [0 := 181818181000000000 + ((10::int) ^ 18 - sum_list [181818181000000000, 181818181000000000, 181818181000000000,
        181818181000000000, 181818181000000000, 90909090000000000, 0, 0, 0, 0])]"
  using first_nonzero_absorbs[OF Math_exp_ok_exp, of Spot] Math_exp_ok_exp
    spot_sideX spot_sideY spot_plan[of exp]
  by simp

section \<open>No validation of the inputs\<close>

lemma untyped_label:
  "getDistribution_untyped mexp (strategy_label s) = getDistribution mexp s"
  by (cases s)
    (simp_all add: getDistribution_untyped_def switch_weights_def strategy_label_def
      getDistribution_def getDistribution_body_def)

lemma unknown_weightsX:
  "weightsX (deltaIds_of 10) [] 10 =
     [Some 0, Some 0, Some 0, Some 0, Some 0, None, None, None, None, None]"
  by (simp add: weightsX_10 element_def)

lemma unknown_normalizedWeights: "normalizedWeights [] 5 = Inr []"
  by (simp add: normalizedWeights_def)

lemma unknown_normalizedX:
  "normalize_side [Some 0, Some 0, Some 0, Some 0, Some 0, None, None, None, None, None]
     = Inl RangeError"
  by (simp add: normalize_side_def sum_weights_def num_def scale_weight_def Math_floor_def
      BigInt_def)

lemma untyped_unknown:
  assumes "strategy \<noteq> ''spot''" "strategy \<noteq> ''curve''" "strategy \<noteq> ''bidask''"
  shows "getDistribution_untyped mexp strategy = Inl RangeError"
  using assms
  by (simp add: getDistribution_untyped_def switch_weights_def normalize_plan_def
      unknown_normalizedWeights unknown_weightsX unknown_normalizedX)

text \<open>
  C5, as stated, fails.  With a strategy value that is none of the three case labels,
  here \<open>"unknown"\<close>, the planner raises no \<open>InvalidStrategy\<close> before computing: no case
  of the \<open>switch\<close> is taken, the weights stay empty, the normalisation of all weights
  runs over the empty array, the first pass fills the X side with \<open>0\<close> and \<open>NaN\<close>, and
  the normalisation of the X side throws a \<open>RangeError\<close> from \<open>BigInt\<close>.
\<close>

theorem unknown_strategy_RangeError:
  "switch_weights exp 10 ''unknown'' = Inr []
   \<and> normalizedWeights [] 5 = Inr []
   \<and> weightsX (deltaIds_of 10) [] 10 =
       [Some 0, Some 0, Some 0, Some 0, Some 0, None, None, None, None, None]
   \<and> normalize_side [Some 0, Some 0, Some 0, Some 0, Some 0, None, None, None, None, None]
       = Inl RangeError
   \<and> getDistribution_untyped exp ''unknown'' = Inl RangeError"
  using untyped_unknown[of "''unknown''" exp]
  by (simp add: switch_weights_def unknown_normalizedWeights unknown_weightsX
      unknown_normalizedX)

text \<open>
  C5, amended.  The planner takes the strategy alone and validates nothing: it has no
  \<open>numBins\<close> argument, the bin count being the constant 10 of its body, and it defines
  neither \<open>InvalidBinCount\<close> nor \<open>InvalidStrategy\<close>.  With one of the three strategies
  it returns a plan of ten bins and raises nothing (\<open>Math.exp\<close> being within a hundredth
  of the exponential).  With any other strategy value it throws a \<open>RangeError\<close> in the
  course of the computation and returns no plan.  Every plan that it returns has ten
  bins.
\<close>

theorem planner_validates_nothing:
  "(\<forall>s. strategy = strategy_label s \<longrightarrow>
        getDistribution_untyped mexp strategy = getDistribution mexp s
      \<and> (Math_exp_ok mexp \<longrightarrow> (\<exists>p. getDistribution_untyped mexp strategy = Inr p)))
   \<and> (strategy \<noteq> ''spot'' \<and> strategy \<noteq> ''curve'' \<and> strategy \<noteq> ''bidask'' \<longrightarrow>
        getDistribution_untyped mexp strategy = Inl RangeError)
   \<and> (\<forall>p. getDistribution_untyped mexp strategy = Inr p \<longrightarrow>
        numBins p = 10 \<and> length (deltaIds p) = 10
      \<and> length (distributionX p) = 10 \<and> length (distributionY p) = 10)"
proof -
  have A: "getDistribution_untyped mexp strategy = getDistribution mexp s
      \<and> (Math_exp_ok mexp \<longrightarrow> (\<exists>p. getDistribution_untyped mexp strategy = Inr p))"
    if "strategy = strategy_label s" for s
    using plan_10[of mexp s] unfolding that untyped_label by blast
  have B: "getDistribution_untyped mexp strategy = Inl RangeError"
    if "strategy \<noteq> ''spot'' \<and> strategy \<noteq> ''curve'' \<and> strategy \<noteq> ''bidask''"
    using that by (intro untyped_unknown) simp_all
  have C: "numBins p = 10 \<and> length (deltaIds p) = 10
      \<and> length (distributionX p) = 10 \<and> length (distributionY p) = 10"
    if p: "getDistribution_untyped mexp strategy = Inr p" for p
  proof -
    from p obtain ws where "normalize_plan 10 ws = Inr p"
      by (auto simp: getDistribution_untyped_def split: sum.splits)
    then obtain nx ny where
      nx: "normalize_side (weightsX (deltaIds_of 10) ws 10) = Inr nx" and
      ny: "normalize_side (weightsY (deltaIds_of 10) ws 10) = Inr ny" and
      e: "p = \<lparr>deltaIds = deltaIds_of 10, distributionX = adjust nx,
             distributionY = adjust ny, numBins = 10\<rparr>"
      by (auto simp: normalize_plan_def Let_def split: sum.splits)
    have "length (adjust nx) = 10"
      using normalize_side_Inr(1)[OF nx] by (simp add: length_adjust length_weightsX)
    moreover have "length (adjust ny) = 10"
      using normalize_side_Inr(1)[OF ny] by (simp add: length_adjust length_weightsY)
    ultimately show ?thesis by (simp add: e length_deltaIds_of)
  qed
  show ?thesis using A B C by blast
qed

theorem planner_validates_nothing_witness:
  "Math_exp_ok exp
   \<and> ''spot'' = strategy_label Spot
   \<and> getDistribution_untyped exp ''spot'' =
       Inr \<lparr>deltaIds = [- 5, - 4, - 3, - 2, - 1, 0, 1, 2, 3, 4],
            distributionX =
              [0, 0, 0, 0, 0, 111111112000000000, 222222222000000000,
               222222222000000000, 222222222000000000, 222222222000000000],
            distributionY =
              [181818186000000000, 181818181000000000, 181818181000000000,
               181818181000000000, 181818181000000000, 90909090000000000, 0, 0, 0, 0],
            numBins = 10\<rparr>
   \<and> numBins \<lparr>deltaIds = [- 5, - 4, - 3, - 2, - 1, 0, 1, 2, 3, 4],
            distributionX =
              [0, 0, 0, 0, 0, 111111112000000000, 222222222000000000,
               222222222000000000, 222222222000000000, 222222222000000000],
            distributionY =
              [181818186000000000, 181818181000000000, 181818181000000000,
               181818181000000000, 181818181000000000, 90909090000000000, 0, 0, 0, 0],
            numBins = 10\<rparr> = 10
   \<and> length [- 5, - 4, - 3, - 2, - 1, 0, 1, 2, 3, (4::int)] = 10
   \<and> ''unknown'' \<noteq> ''spot'' \<and> ''unknown'' \<noteq> ''curve'' \<and> ''unknown'' \<noteq> ''bidask''
   \<and> getDistribution_untyped exp ''unknown'' = Inl RangeError"
proof -
  have l: "''spot'' = strategy_label Spot" by (simp add: strategy_label_def)
  have a: "getDistribution_untyped exp ''spot'' = getDistribution exp Spot"
    using planner_validates_nothing[of "''spot''" exp] l by blast
  have b: "getDistribution_untyped exp ''unknown'' = Inl RangeError"
    using planner_validates_nothing[of "''unknown''" exp] by simp
  show ?thesis
    unfolding a using b Math_exp_ok_exp spot_plan[of exp] by (simp add: strategy_label_def)
qed

section \<open>The spot plan\<close>

text \<open>
  C6, as stated, fails.  The five bins below the active one do not carry equal Y shares:
  the bin at offset \<open>-5\<close> (index 0) has taken the remainder of the Y side.
\<close>

theorem spot_Y_shares_differ:
  "getDistribution exp Spot =
       Inr \<lparr>deltaIds = [- 5, - 4, - 3, - 2, - 1, 0, 1, 2, 3, 4],
            distributionX =
              [0, 0, 0, 0, 0, 111111112000000000, 222222222000000000,
               222222222000000000, 222222222000000000, 222222222000000000],
            distributionY =
              [181818186000000000, 181818181000000000, 181818181000000000,
               181818181000000000, 181818181000000000, 90909090000000000, 0, 0, 0, 0],
            numBins = 10\<rparr>
   \<and> [- 5, - 4, - 3, - 2, - 1, 0, 1, 2, 3, 4] ! 0 < (0::int)
   \<and> [- 5, - 4, - 3, - 2, - 1, 0, 1, 2, 3, 4] ! 1 < (0::int)
   \<and> ([181818186000000000, 181818181000000000, 181818181000000000,
        181818181000000000, 181818181000000000, 90909090000000000, 0, 0, 0, 0] :: int list) ! 0
     \<noteq> [181818186000000000, 181818181000000000, 181818181000000000,
        181818181000000000, 181818181000000000, 90909090000000000, 0, 0, 0, 0] ! 1"
  using spot_plan[of exp] by simp

text \<open>
  C6, amended.  With the spot strategy the plan is the one below: no X share at the five
  negative offsets; Y shares there of \<open>181818181000000000\<close> at offsets \<open>-4\<close> to \<open>-1\<close>
  and of \<open>181818186000000000\<close> at offset \<open>-5\<close>, which carries the remainder; no Y share
  and equal X shares at the four positive offsets; half a unit of raw weight on each
  side at offset 0; and both sides sum to \<open>10 ^ 18\<close>.
\<close>

theorem spot_plan_values:
  "weights mexp 10 Spot = Inr (replicate 10 (Some 1))
   \<and> weightsX (deltaIds_of 10) (replicate 10 (Some 1)) 10 ! 5 = Some (1 / 2)
   \<and> weightsY (deltaIds_of 10) (replicate 10 (Some 1)) 10 ! 5 = Some (1 / 2)
   \<and> getDistribution mexp Spot =
       Inr \<lparr>deltaIds = [- 5, - 4, - 3, - 2, - 1, 0, 1, 2, 3, 4],
            distributionX =
              [0, 0, 0, 0, 0, 111111112000000000, 222222222000000000,
               222222222000000000, 222222222000000000, 222222222000000000],
            distributionY =
              [181818186000000000, 181818181000000000, 181818181000000000,
               181818181000000000, 181818181000000000, 90909090000000000, 0, 0, 0, 0],
            numBins = 10\<rparr>
   \<and> sum_list [0, 0, 0, 0, 0, 111111112000000000, 222222222000000000,
        222222222000000000, 222222222000000000, 222222222000000000] = (10::int) ^ 18
   \<and> sum_list [181818186000000000, 181818181000000000, 181818181000000000,
        181818181000000000, 181818181000000000, 90909090000000000, 0, 0, 0, 0] = (10::int) ^ 18"
  using spot_weights_10[of mexp] spot_plan[of mexp]
  by (simp add: spot_weightsX spot_weightsY)

section \<open>The offsets\<close>

text \<open>
  C7.  The offsets are \<open>deltaIds[i] = i - floor(numBins / 2)\<close> for every index below
  \<open>numBins\<close>, and the three arrays of a plan have the same length.  With the planner's
  ten bins the offsets are \<open>-5, ..., 4\<close>, with the one zero at index 5.
\<close>

theorem deltaIds_centered:
  "(\<forall>p. getDistribution_body mexp n s = Inr p \<longrightarrow>
      length (deltaIds p) = nat n \<and> length (distributionX p) = length (deltaIds p)
    \<and> length (distributionY p) = length (deltaIds p)
    \<and> (\<forall>i<nat n. deltaIds p ! i = int i - n div 2))
   \<and> (\<forall>p. getDistribution mexp s = Inr p \<longrightarrow>
        deltaIds p = [- 5, - 4, - 3, - 2, - 1, 0, 1, 2, 3, 4]
      \<and> (\<forall>i<10. deltaIds p ! i = 0 \<longleftrightarrow> i = 5))
   \<and> (Math_exp_ok mexp \<longrightarrow> (\<exists>p. getDistribution mexp s = Inr p))"
proof -
  have A: "length (deltaIds p) = nat n \<and> length (distributionX p) = length (deltaIds p)
    \<and> length (distributionY p) = length (deltaIds p)
    \<and> (\<forall>i<nat n. deltaIds p ! i = int i - n div 2)"
    if "getDistribution_body mexp n s = Inr p" for p
  proof -
    from getDistribution_body_InrD[OF that] obtain ws nx ny where
      nx: "normalize_side (weightsX (deltaIds_of n) ws n) = Inr nx" and
      ny: "normalize_side (weightsY (deltaIds_of n) ws n) = Inr ny" and
      p: "p = \<lparr>deltaIds = deltaIds_of n, distributionX = adjust nx,
             distributionY = adjust ny, numBins = n\<rparr>" by blast
    have "length (adjust nx) = nat n"
      using normalize_side_Inr(1)[OF nx] by (simp add: length_adjust length_weightsX)
    moreover have "length (adjust ny) = nat n"
      using normalize_side_Inr(1)[OF ny] by (simp add: length_adjust length_weightsY)
    ultimately show ?thesis by (simp add: p length_deltaIds_of nth_deltaIds_of)
  qed
  have B: "deltaIds p = [- 5, - 4, - 3, - 2, - 1, 0, 1, 2, 3, 4]
      \<and> (\<forall>i<10. deltaIds p ! i = 0 \<longleftrightarrow> i = 5)"
    if "getDistribution mexp s = Inr p" for p
  proof -
    have d: "deltaIds p = deltaIds_of 10"
      using that getDistribution_body_InrD[of mexp 10 s p] by (auto simp: getDistribution_def)
    have "deltaIds p ! i = 0 \<longleftrightarrow> i = 5" if "i < 10" for i
      using that by (simp add: d nth_deltaIds_of)
    then show ?thesis using d by (simp add: deltaIds_of_10)
  qed
  have C: "\<exists>p. getDistribution mexp s = Inr p" if "Math_exp_ok mexp"
    using plan_10[OF that, of s] by blast
  show ?thesis using A B C by blast
qed

theorem deltaIds_centered_witness:
  "Math_exp_ok exp
   \<and> getDistribution_body exp 10 Spot =
       Inr \<lparr>deltaIds = [- 5, - 4, - 3, - 2, - 1, 0, 1, 2, 3, 4],
            distributionX =
              [0, 0, 0, 0, 0, 111111112000000000, 222222222000000000,
               222222222000000000, 222222222000000000, 222222222000000000],
            distributionY =
              [181818186000000000, 181818181000000000, 181818181000000000,
               181818181000000000, 181818181000000000, 90909090000000000, 0, 0, 0, 0],
            numBins = 10\<rparr>
   \<and> getDistribution exp Spot =
       Inr \<lparr>deltaIds = [- 5, - 4, - 3, - 2, - 1, 0, 1, 2, 3, 4],
            distributionX =
              [0, 0, 0, 0, 0, 111111112000000000, 222222222000000000,
               222222222000000000, 222222222000000000, 222222222000000000],
            distributionY =
              [181818186000000000, 181818181000000000, 181818181000000000,
               181818181000000000, 181818181000000000, 90909090000000000, 0, 0, 0, 0],
            numBins = 10\<rparr>
   \<and> length [- 5, - 4, - 3, - 2, - 1, 0, 1, 2, 3, (4::int)] = nat 10
   \<and> (3::nat) < nat 10
   \<and> [- 5, - 4, - 3, - 2, - 1, 0, 1, 2, 3, 4] ! 3 = int 3 - 10 div 2
   \<and> (5::nat) < 10
   \<and> [- 5, - 4, - 3, - 2, - 1, 0, 1, 2, 3, 4] ! 5 = (0::int)"
  using deltaIds_centered[of exp 10 Spot] Math_exp_ok_exp spot_plan[of exp]
  by (simp add: getDistribution_def)

section \<open>The raw weights of the curve strategy\<close>

lemma curve_weights_10_values:
  "curve_weights mexp 10 =
     [Some (mexp (- 2)), Some (mexp (- (5764607523034235 / 4503599627370496))), Some (mexp (- (3242591731706757 / 4503599627370496))), Some (mexp (- (5764607523034235 / 18014398509481984))), Some (mexp (- (5764607523034235 / 72057594037927936))), Some (mexp 0), Some (mexp (- (5764607523034235 / 72057594037927936))), Some (mexp (- (5764607523034235 / 18014398509481984))), Some (mexp (- (3242591731706757 / 4503599627370496))), Some (mexp (- (5764607523034235 / 4503599627370496)))]"
  unfolding curve_weights_10 curve_exponents_10 by simp

lemma exp_upper: "t \<le> 0 \<Longrightarrow> exp t \<le> 1 / (1 - (t::real))"
proof -
  assume t: "t \<le> 0"
  have "1 - t \<le> exp (- t)" using exp_ge_add_one_self[of "- t"] by simp
  moreover have "0 < 1 - t" using t by simp
  ultimately have "1 / exp (- t) \<le> 1 / (1 - t)" by (intro divide_left_mono) simp_all
  then show ?thesis by (simp add: exp_minus field_simps)
qed

lemma exp_lower: "1 + t \<le> exp (t::real)"
  by (rule exp_ge_add_one_self)

lemma curve_exp_bounds:
  "exp (- 2) \<le> (1 / 3 :: real)"
  "exp (- (5764607523034235 / 4503599627370496)) \<le> (11 / 25 :: real)"
  "exp (- (3242591731706757 / 4503599627370496)) \<le> (59 / 100 :: real)"
  "exp (- (5764607523034235 / 18014398509481984)) \<le> (19 / 25 :: real)"
  "(67 / 100 :: real) \<le> exp (- (5764607523034235 / 18014398509481984))"
  "(9199 / 10000 :: real) \<le> exp (- (5764607523034235 / 72057594037927936))"
  "exp (- (5764607523034235 / 72057594037927936)) \<le> (1 :: real)"
proof -
  show "exp (- 2) \<le> (1 / 3 :: real)"
    using exp_upper[of "- 2"] by simp
  show "exp (- (5764607523034235 / 4503599627370496)) \<le> (11 / 25 :: real)"
    using exp_upper[of "- (5764607523034235 / 4503599627370496)"] by simp
  show "exp (- (3242591731706757 / 4503599627370496)) \<le> (59 / 100 :: real)"
    using exp_upper[of "- (3242591731706757 / 4503599627370496)"] by simp
  show "exp (- (5764607523034235 / 18014398509481984)) \<le> (19 / 25 :: real)"
    using exp_upper[of "- (5764607523034235 / 18014398509481984)"] by simp
  show "(67 / 100 :: real) \<le> exp (- (5764607523034235 / 18014398509481984))"
    using exp_lower[of "- (5764607523034235 / 18014398509481984)"] by simp
  show "(9199 / 10000 :: real) \<le> exp (- (5764607523034235 / 72057594037927936))"
    using exp_lower[of "- (5764607523034235 / 72057594037927936)"] by simp
  show "exp (- (5764607523034235 / 72057594037927936)) \<le> (1 :: real)"
    by simp
qed

lemma curve_neighbours_bounds:
  assumes "Math_exp_ok mexp"
  shows "exact_sum (curve_weights mexp 10) / 4
           \<le> exact_at (curve_weights mexp 10) 4 + exact_at (curve_weights mexp 10) 6
       \<and> exact_at (curve_weights mexp 10) 4 + exact_at (curve_weights mexp 10) 6
           < exact_sum (curve_weights mexp 10) / 2"
proof -
  define e0 where "e0 = exp (- 2 :: real)"
  define e1 where "e1 = exp (- (5764607523034235 / 4503599627370496) :: real)"
  define e2 where "e2 = exp (- (3242591731706757 / 4503599627370496) :: real)"
  define e3 where "e3 = exp (- (5764607523034235 / 18014398509481984) :: real)"
  define e4 where "e4 = exp (- (5764607523034235 / 72057594037927936) :: real)"
  define m0 where "m0 = mexp (- 2)"
  define m1 where "m1 = mexp (- (5764607523034235 / 4503599627370496))"
  define m2 where "m2 = mexp (- (3242591731706757 / 4503599627370496))"
  define m3 where "m3 = mexp (- (5764607523034235 / 18014398509481984))"
  define m4 where "m4 = mexp (- (5764607523034235 / 72057594037927936))"
  define m5 where "m5 = mexp 0"
  have ok: "\<bar>m0 - e0\<bar> \<le> e0 / 100" "\<bar>m1 - e1\<bar> \<le> e1 / 100" "\<bar>m2 - e2\<bar> \<le> e2 / 100"
    "\<bar>m3 - e3\<bar> \<le> e3 / 100" "\<bar>m4 - e4\<bar> \<le> e4 / 100" "\<bar>m5 - 1\<bar> \<le> 1 / 100"
    using assms curve_exponents_10
    unfolding e0_def e1_def e2_def e3_def e4_def m0_def m1_def m2_def m3_def m4_def m5_def
    by (auto simp: Math_exp_ok_def upt_10)
  have b: "0 < e0" "e0 \<le> 1 / 3" "0 < e1" "e1 \<le> 11 / 25" "0 < e2" "e2 \<le> 59 / 100"
    "67 / 100 \<le> e3" "e3 \<le> 19 / 25" "9199 / 10000 \<le> e4" "e4 \<le> 1"
    unfolding e0_def e1_def e2_def e3_def e4_def
    using curve_exp_bounds by simp_all
  have at: "exact_at (curve_weights mexp 10) 4 + exact_at (curve_weights mexp 10) 6 = 2 * m4"
    unfolding curve_weights_10_values by (simp add: exact_at_def m4_def)
  have tot: "exact_sum (curve_weights mexp 10)
      = m0 + 2 * m1 + 2 * m2 + 2 * m3 + 2 * m4 + m5"
    unfolding curve_weights_10_values
    by (simp add: exact_sum_def m0_def m1_def m2_def m3_def m4_def m5_def)
  have lo: "99 / 100 * e0 \<le> m0" "99 / 100 * e1 \<le> m1" "99 / 100 * e2 \<le> m2"
    "99 / 100 * e3 \<le> m3" "99 / 100 * e4 \<le> m4" "99 / 100 \<le> m5"
    using ok by linarith+
  have hi: "m0 \<le> 101 / 100 * e0" "m1 \<le> 101 / 100 * e1" "m2 \<le> 101 / 100 * e2"
    "m3 \<le> 101 / 100 * e3" "m4 \<le> 101 / 100 * e4" "m5 \<le> 101 / 100"
    using ok by linarith+
  have "(m0 + 2 * m1 + 2 * m2 + 2 * m3 + 2 * m4 + m5) / 4 \<le> 2 * m4"
    using lo(5) hi(1,2,3,4,6) b by argo
  moreover have "2 * m4 < (m0 + 2 * m1 + 2 * m2 + 2 * m3 + 2 * m4 + m5) / 2"
    using lo(1,2,3,4,6) hi(5) b by argo
  ultimately show ?thesis unfolding at tot by simp
qed

text \<open>
  C8, as stated, fails.  With ten bins and \<open>sigma = 2.5\<close> the curve is wide: the two bins
  next to the active one (indices 4 and 6) together carry less than half of the total
  raw weight, here with the exponential itself for \<open>Math.exp\<close>.
\<close>

theorem curve_neighbours_below_half:
  "exact_at (curve_weights exp 10) 4 + exact_at (curve_weights exp 10) 6
     < exact_sum (curve_weights exp 10) / 2"
  using curve_neighbours_bounds[OF Math_exp_ok_exp] by simp

text \<open>
  C8, amended.  With the planner's ten bins, the two bins next to the active one
  together carry less than half of the total raw weight of the curve strategy, and at
  least a quarter of it (\<open>Math.exp\<close> being within a hundredth of the exponential).
\<close>

theorem curve_neighbours_share:
  assumes "Math_exp_ok mexp"
  shows "exact_sum (curve_weights mexp 10) / 4
           \<le> exact_at (curve_weights mexp 10) 4 + exact_at (curve_weights mexp 10) 6
       \<and> exact_at (curve_weights mexp 10) 4 + exact_at (curve_weights mexp 10) 6
           < exact_sum (curve_weights mexp 10) / 2"
  using assms by (rule curve_neighbours_bounds)

theorem curve_neighbours_share_witness:
  "Math_exp_ok exp
   \<and> exact_sum (curve_weights exp 10) / 4
           \<le> exact_at (curve_weights exp 10) 4 + exact_at (curve_weights exp 10) 6
   \<and> exact_at (curve_weights exp 10) 4 + exact_at (curve_weights exp 10) 6
           < exact_sum (curve_weights exp 10) / 2"
  using curve_neighbours_share[OF Math_exp_ok_exp] Math_exp_ok_exp by simp

section \<open>The raw weights of the bid-ask strategy, for any bin count\<close>

lemma fl_tenth: "fl (1 / 10) = 3602879701896397 / 36028797018963968"
  by (rule fl_eqI[where e = "- 4" and m = 7205759403792794]) simp_all

lemma fl_one_plus_tenth:
  "fl (39631676720860365 / 36028797018963968) = 2476979795053773 / 2251799813685248"
  by (rule fl_eqI[where e = 0 and m = 4953959590107546]) simp_all

lemma fl_below_one_plus_tenth:
  "fl (39631676720860361 / 36028797018963968) = 4953959590107545 / 4503599627370496"
  by (rule fl_eqI[where e = 0 and m = 4953959590107545]) simp_all

lemma fl_below_one: "fl (9007199254740991 / 9007199254740992) = 9007199254740991 / 9007199254740992"
  by (rule fl_eqI[where e = "- 1" and m = 9007199254740991]) simp_all

lemma fl_abs_le:
  assumes "\<bar>x\<bar> \<le> 9007199254740991 / 9007199254740992"
  shows "\<bar>fl x\<bar> \<le> 9007199254740991 / 9007199254740992"
proof (cases "0 \<le> x")
  case True
  then have "fl x \<le> fl (9007199254740991 / 9007199254740992)"
    using assms by (intro fl_mono_nonneg) simp_all
  then show ?thesis using fl_nonneg[OF True] by (simp add: fl_below_one)
next
  case False
  then have n: "0 \<le> - x" by simp
  have "fl (- x) \<le> fl (9007199254740991 / 9007199254740992)"
    using assms False by (intro fl_mono_nonneg) simp_all
  then show ?thesis using fl_nonneg[OF n] by (simp add: fl_below_one fl_uminus)
qed

lemma bidask_weight_value:
  assumes "5 \<le> n" "n < 2 ^ 32" "int i < n"
  shows "bidask_weight n i =
     Some (fl (fl (fl ((of_int (int i) - (of_int n - 1) / 2) / ((of_int n - 1) / 2))
                   * fl ((of_int (int i) - (of_int n - 1) / 2) / ((of_int n - 1) / 2)))
               + fl (1 / 10)))"
proof -
  have a: "\<bar>n - 1\<bar> < 2 ^ 53" "\<bar>2 * int i - (n - 1)\<bar> < 2 ^ 53" using assms by simp_all
  have c1: "(of_int n - 1 :: real) = of_int (n - 1)" by simp
  have c3: "(of_int (int i) :: real) - of_int (n - 1) / 2 = of_int (2 * int i - (n - 1)) / 2"
    by (simp add: field_simps)
  have 1: "fl (of_int n - 1) = of_int n - 1"
    unfolding c1 by (rule fl_of_int[OF a(1)])
  have 2: "fl ((of_int n - 1) / 2) = (of_int n - 1) / 2"
    unfolding c1 by (rule fl_half_int[OF a(1)])
  have 3: "fl (of_int (int i) - (of_int n - 1) / 2) = of_int (int i) - (of_int n - 1) / 2"
    unfolding c1 c3 by (rule fl_half_int[OF a(2)])
  have 4: "((of_int n - 1) / 2 = (0::real)) = False" using assms(1) by simp
  have 5: "((2::real) = 0) = False" by simp
  have n1: "num 1 = Some 1" "num 2 = Some 2" "num n = Some (of_int n)"
    "num (int i) = Some (of_int (int i))" by (simp_all add: num_def)
  show ?thesis
    unfolding bidask_weight_def Let_def n1 fsub.simps 1 fdiv.simps 5 if_False 2 3 4
      fmul.simps fadd.simps
    by (rule refl)
qed

lemma bidask_weight_extreme:
  assumes "5 \<le> n" "n < 2 ^ 32" "i = 0 \<or> int i = n - 1"
  shows "bidask_weight n i = Some (2476979795053773 / 2251799813685248)"
proof -
  define h :: real where "h = (of_int n - 1) / 2"
  define r where "r = (of_int (int i) - h) / h"
  have h: "0 < h" using assms(1) by (simp add: h_def)
  have hh: "2 * h = of_int n - 1" by (simp add: h_def)
  have i: "int i < n" using assms by auto
  have "r = - 1 \<or> r = 1"
  proof (rule disjE[OF assms(3)])
    assume "i = 0"
    then show ?thesis using h by (simp add: r_def)
  next
    assume "int i = n - 1"
    then have "(of_int (int i) :: real) = of_int (n - 1)" by (rule arg_cong)
    then have "of_int (int i) - h = h" using hh by simp
    then show ?thesis using h by (simp add: r_def)
  qed
  moreover have "fl 1 = 1" "fl (- 1) = - 1"
    using fl_of_int[of 1] fl_of_int[of "- 1"] by simp_all
  ultimately have "fl (fl r * fl r) = 1" by auto
  then show ?thesis
    unfolding bidask_weight_value[OF assms(1,2) i] h_def[symmetric] r_def[symmetric]
    by (simp add: fl_tenth fl_one_plus_tenth)
qed

lemma bidask_weight_interior:
  assumes "5 \<le> n" "n < 2 ^ 32" "0 < i" "int i < n - 1"
  shows "\<exists>w. bidask_weight n i = Some w \<and> w \<le> 4953959590107545 / 4503599627370496"
proof -
  define h :: real where "h = (of_int n - 1) / 2"
  define r where "r = (of_int (int i) - h) / h"
  define a :: real where "a = 9007199254740991 / 9007199254740992"
  have h: "2 \<le> h" "h \<le> 2 ^ 31" using assms(1,2) by (simp_all add: h_def)
  have i: "int i < n" using assms by auto
  have hh: "2 * h = of_int n - 1" by (simp add: h_def)
  have i1: "1 \<le> (of_int (int i) :: real)" using assms(3) by simp
  have "int i \<le> n - 2" using assms(4) by simp
  then have "(of_int (int i) :: real) \<le> of_int (n - 2)" by (simp only: of_int_le_iff)
  then have i2: "(of_int (int i) :: real) \<le> of_int n - 2" by simp
  have d: "\<bar>of_int (int i) - h\<bar> \<le> h - 1"
    unfolding abs_le_iff using hh i1 i2 by (intro conjI) linarith+
  have "\<bar>r\<bar> = \<bar>of_int (int i) - h\<bar> / h" using h by (simp add: r_def)
  also have "\<dots> \<le> (h - 1) / h" using d h by (intro divide_right_mono) simp_all
  also have "\<dots> = 1 - 1 / h" using h by (simp add: field_simps)
  also have "\<dots> \<le> a"
  proof -
    have "1 / 2 ^ 31 \<le> 1 / h" using h by (intro divide_left_mono) simp_all
    then show ?thesis by (simp add: a_def)
  qed
  finally have "\<bar>r\<bar> \<le> a" .
  then have N: "\<bar>fl r\<bar> \<le> a" unfolding a_def by (rule fl_abs_le)
  have a01: "0 \<le> a" "a \<le> 1" by (simp_all add: a_def)
  have "fl r * fl r = \<bar>fl r\<bar> * \<bar>fl r\<bar>" by simp
  also have "\<dots> \<le> a * a" using N by (intro mult_mono) simp_all
  also have "\<dots> \<le> a" using a01 by (simp add: mult_left_le)
  finally have sq: "fl r * fl r \<le> a" .
  have sq0: "0 \<le> fl r * fl r" by simp
  have "fl (fl r * fl r) \<le> fl a" using sq0 sq by (rule fl_mono_nonneg)
  then have S: "fl (fl r * fl r) \<le> a" by (simp add: a_def fl_below_one)
  have S0: "0 \<le> fl (fl r * fl r)" using sq0 by (rule fl_nonneg)
  have "fl (fl (fl r * fl r) + 3602879701896397 / 36028797018963968)
      \<le> fl (a + 3602879701896397 / 36028797018963968)"
    using S0 S by (intro fl_mono_nonneg) simp_all
  then have "fl (fl (fl r * fl r) + fl (1 / 10)) \<le> 4953959590107545 / 4503599627370496"
    by (simp add: a_def fl_tenth fl_below_one_plus_tenth)
  then show ?thesis
    unfolding bidask_weight_value[OF assms(1,2) i] h_def[symmetric] r_def[symmetric] by simp
qed

text \<open>
  C9.  With five bins or more, the raw weight of the bid-ask strategy at each of the two
  extreme bins (\<open>i = 0\<close> and \<open>i = numBins - 1\<close>) is strictly greater than the raw weight
  at every interior bin.  The weights are those the code computes in floating point,
  \<open>normalized * normalized + 0.1\<close>; the planner itself has ten bins.
\<close>

theorem bidask_extremes_heaviest:
  assumes "5 \<le> n" "0 < i" "int i < n - 1"
  shows "(n < 2 ^ 32 \<longrightarrow> weights mexp n Bidask = Inr (bidask_weights n))
     \<and> (\<forall>ws. weights mexp n Bidask = Inr ws \<longrightarrow>
          (\<exists>w0 wi wl. ws ! 0 = Some w0 \<and> ws ! i = Some wi \<and> ws ! (nat n - 1) = Some wl
             \<and> wi < w0 \<and> wi < wl))"
proof -
  have A: "\<exists>w0 wi wl. ws ! 0 = Some w0 \<and> ws ! i = Some wi \<and> ws ! (nat n - 1) = Some wl
             \<and> wi < w0 \<and> wi < wl"
    if ws: "weights mexp n Bidask = Inr ws" for ws
  proof -
    have n: "n < 2 ^ 32" and eq: "ws = bidask_weights n"
      using ws by (simp_all split: if_splits)
    have l: "0 < nat n" "i < nat n" "nat n - 1 < nat n" using assms by simp_all
    have nth: "bidask_weights n ! k = bidask_weight n k" if "k < nat n" for k
      using that by (simp add: bidask_weights_def)
    have "int (nat n - 1) = n - 1" using assms(1) by simp
    then have e: "bidask_weights n ! 0 = Some (2476979795053773 / 2251799813685248)"
      "bidask_weights n ! (nat n - 1) = Some (2476979795053773 / 2251799813685248)"
      using bidask_weight_extreme[OF assms(1) n, of 0]
        bidask_weight_extreme[OF assms(1) n, of "nat n - 1"] l
      by (simp_all add: nth)
    from bidask_weight_interior[OF assms(1) n assms(2,3)] obtain w where
      w: "bidask_weights n ! i = Some w" "w \<le> 4953959590107545 / 4503599627370496"
      using l by (auto simp: nth)
    have lt: "w < 2476979795053773 / 2251799813685248" using w(2) by simp
    show ?thesis unfolding eq using e w(1) lt by blast
  qed
  have B: "weights mexp n Bidask = Inr (bidask_weights n)" if "n < 2 ^ 32"
    using that by simp
  show ?thesis using A B by blast
qed

theorem bidask_extremes_heaviest_witness:
  "(5::int) \<le> 10 \<and> (0::nat) < 4 \<and> int 4 < 10 - 1 \<and> (10::int) < 2 ^ 32
   \<and> weights exp 10 Bidask = Inr (bidask_weights 10)
   \<and> bidask_weights 10 ! 0 = Some (2476979795053773 / 2251799813685248)
   \<and> bidask_weights 10 ! 4 = Some (4047679665093483 / 36028797018963968)
   \<and> bidask_weights 10 ! (nat 10 - 1) = Some (2476979795053773 / 2251799813685248)
   \<and> (4047679665093483 / 36028797018963968 :: real) < 2476979795053773 / 2251799813685248"
  using bidask_extremes_heaviest[of 10 4 exp] bidask_weights_10 by simp

end
